theory Spec2Isabelle
  imports Main "HOL-Library.Word"
begin

section \<open>JavaScript string primitives used by the migration tool\<close>

text \<open>
  A JavaScript string is modelled as a \<open>string\<close>, one \<open>char\<close> per code unit.
  \<open>js_split sep s\<close> is \<^verbatim>\<open>s.split(sep)\<close> for a one-character separator: the pieces
  between the occurrences of the separator, in order. The result is never empty
  (\<^verbatim>\<open>"".split(":")\<close> is \<^verbatim>\<open>[""]\<close>), so element 0 always exists.
\<close>

fun js_split :: "char \<Rightarrow> string \<Rightarrow> string list" where
  "js_split sep [] = [[]]"
| "js_split sep (c # cs) =
     (if c = sep then [] # js_split sep cs
      else (case js_split sep cs of
              p # ps \<Rightarrow> (c # p) # ps
            | [] \<Rightarrow> [[c]]))"

text \<open>\<^verbatim>\<open>s.substring(n)\<close>: the string without its first \<open>n\<close> code units.\<close>

definition substring :: "nat \<Rightarrow> string \<Rightarrow> string" where
  "substring n s = drop n s"

text \<open>
  \<^verbatim>\<open>const localpart = user.name.split(":")[0].substring(1);\<close>
  (migrate.mts, line 197). Element 0 of the split is read with \<open>hd\<close>; lemma
  \<open>js_split_not_Nil\<close> below shows that the list is never empty.
\<close>

definition localpart :: "string \<Rightarrow> string" where
  "localpart name = substring 1 (hd (js_split CHR '':'' name))"

text \<open>
  \<^verbatim>\<open>`${n}`\<close> for a non-negative integer \<open>n\<close>, and for any integer: the decimal
  digits, with a leading minus sign for a negative number.
\<close>

function string_of_nat :: "nat \<Rightarrow> string" where
  "string_of_nat n =
     (if n < 10 then [''0123456789'' ! n]
      else string_of_nat (n div 10) @ [''0123456789'' ! (n mod 10)])"
  by pat_completeness auto
termination
  by (relation "measure id") auto

declare string_of_nat.simps [simp del]

definition string_of_int :: "int \<Rightarrow> string" where
  "string_of_int i =
     (if i < 0 then CHR ''-'' # string_of_nat (nat (- i)) else string_of_nat (nat i))"

text \<open>Position of the first occurrence of an element in a list.\<close>

fun index_of :: "'a \<Rightarrow> 'a list \<Rightarrow> nat option" where
  "index_of x [] = None"
| "index_of x (y # ys) = (if x = y then Some 0 else map_option Suc (index_of x ys))"

text \<open>
  \<^verbatim>\<open>s.toLowerCase()\<close> and its counterpart on the letters \<open>A\<close> to \<open>Z\<close>; every other
  code unit is left as it is (the mapping of non-ASCII letters is not modelled).
\<close>

definition lower_letters :: string where
  "lower_letters = ''abcdefghijklmnopqrstuvwxyz''"

definition upper_letters :: string where
  "upper_letters = ''ABCDEFGHIJKLMNOPQRSTUVWXYZ''"

definition lower_char :: "char \<Rightarrow> char" where
  "lower_char c = (case index_of c upper_letters of Some i \<Rightarrow> lower_letters ! i | None \<Rightarrow> c)"

definition upper_char :: "char \<Rightarrow> char" where
  "upper_char c = (case index_of c lower_letters of Some i \<Rightarrow> upper_letters ! i | None \<Rightarrow> c)"

definition toLowerCase :: "string \<Rightarrow> string" where
  "toLowerCase s = map lower_char s"

text \<open>Element \<open>i\<close> of a JavaScript array: \<open>None\<close> stands for \<^verbatim>\<open>undefined\<close>.\<close>

fun js_nth :: "'a list \<Rightarrow> nat \<Rightarrow> 'a option" where
  "js_nth [] i = None"
| "js_nth (x # xs) 0 = Some x"
| "js_nth (x # xs) (Suc i) = js_nth xs i"

section \<open>The identifier library (id128)\<close>

text \<open>
  Modelled from the spec: the package \<^verbatim>\<open>id128\<close> that \<^verbatim>\<open>migrate.mts\<close> imports is
  not part of the sources. The specification describes it as producing a 128-bit value
  with two textual encodings of the same value, a time-sortable one (ULID) and the standard
  dashed hexadecimal one (UUID), and as accepting an identifier in the sortable encoding,
  the UUID encoding or the raw (undashed) UUID form. The model follows that description
  and the published formats: a ULID is the 48-bit millisecond timestamp followed by 80
  random bits, written as 26 digits of Crockford's base 32; a UUID is the same 16 bytes
  written as 32 hexadecimal digits, grouped 8-4-4-4-12 in the canonical form and
  ungrouped in the raw form.

  The 16 bytes are represented by the number they denote, most significant byte first,
  which is below \<open>2 ^ 128\<close>.
\<close>

datatype exn =
    Error string \<comment> \<open>\<^verbatim>\<open>new Error(message)\<close>\<close>
  | InvalidEncoding \<comment> \<open>raised by \<^verbatim>\<open>Uuid.fromRaw\<close>\<close>
  | ConstraintViolation \<comment> \<open>the target store rejects an insertion\<close>
  | QueryRejected \<comment> \<open>the source store rejects a query\<close>

text \<open>\<open>n\<close> digits of \<open>x\<close> in base \<open>b\<close>, most significant first, and their value.\<close>

fun digits_be :: "nat \<Rightarrow> nat \<Rightarrow> nat \<Rightarrow> nat list" where
  "digits_be b 0 x = []"
| "digits_be b (Suc n) x = digits_be b n (x div b) @ [x mod b]"

definition value_be :: "nat \<Rightarrow> nat list \<Rightarrow> nat" where
  "value_be b ds = foldl (\<lambda>a d. a * b + d) 0 ds"

definition hex_alphabet :: string where
  "hex_alphabet = ''0123456789ABCDEF''"

definition crockford_alphabet :: string where
  "crockford_alphabet = ''0123456789ABCDEFGHJKMNPQRSTVWXYZ''"

definition encode_with :: "string \<Rightarrow> nat \<Rightarrow> nat \<Rightarrow> string" where
  "encode_with alphabet n x = map (\<lambda>d. alphabet ! d) (digits_be (length alphabet) n x)"

text \<open>
  Decoding without validation (the library's \<^verbatim>\<open>...Trusted\<close> entry points): a character
  outside the alphabet reads as digit 0. The migration code only decodes strings that
  passed the matching recogniser.
\<close>

definition digit_of :: "string \<Rightarrow> char \<Rightarrow> nat" where
  "digit_of alphabet c = (case index_of c alphabet of Some i \<Rightarrow> i | None \<Rightarrow> 0)"

definition decode_with :: "string \<Rightarrow> string \<Rightarrow> nat" where
  "decode_with alphabet s = value_be (length alphabet) (map (digit_of alphabet) s)"

definition is_hex :: "char \<Rightarrow> bool" where
  "is_hex c = (upper_char c \<in> set hex_alphabet)"

text \<open>The canonical UUID text: 32 hexadecimal digits with dashes after digits 8, 12, 16 and 20.\<close>

definition Uuid_toRaw :: "nat \<Rightarrow> string" where
  "Uuid_toRaw bytes = encode_with hex_alphabet 32 bytes"

definition Uuid_toCanonical :: "nat \<Rightarrow> string" where
  "Uuid_toCanonical bytes =
     (let h = Uuid_toRaw bytes
      in take 8 h @ ''-'' @ take 4 (drop 8 h) @ ''-'' @ take 4 (drop 12 h) @ ''-''
         @ take 4 (drop 16 h) @ ''-'' @ drop 20 h)"

definition Uuid_isRaw :: "string \<Rightarrow> bool" where
  "Uuid_isRaw s = (length s = 32 \<and> list_all is_hex s)"

definition Uuid_isCanonical :: "string \<Rightarrow> bool" where
  "Uuid_isCanonical s =
     (length s = 36
      \<and> list_all is_hex (take 8 s) \<and> take 1 (drop 8 s) = ''-''
      \<and> list_all is_hex (take 4 (drop 9 s)) \<and> take 1 (drop 13 s) = ''-''
      \<and> list_all is_hex (take 4 (drop 14 s)) \<and> take 1 (drop 18 s) = ''-''
      \<and> list_all is_hex (take 4 (drop 19 s)) \<and> take 1 (drop 23 s) = ''-''
      \<and> list_all is_hex (drop 24 s))"

definition Uuid_fromRawTrusted :: "string \<Rightarrow> nat" where
  "Uuid_fromRawTrusted s = decode_with hex_alphabet (map upper_char s)"

definition Uuid_fromCanonicalTrusted :: "string \<Rightarrow> nat" where
  "Uuid_fromCanonicalTrusted s = Uuid_fromRawTrusted (filter (\<lambda>c. c \<noteq> CHR ''-'') s)"

definition Uuid_fromRaw :: "string \<Rightarrow> exn + nat" where
  "Uuid_fromRaw s = (if Uuid_isRaw s then Inr (Uuid_fromRawTrusted s) else Inl InvalidEncoding)"

text \<open>
  The canonical ULID text: 26 digits of Crockford's base 32. 26 digits hold 130 bits, so
  the first digit of a 128-bit value is at most 7.
\<close>

definition Ulid_toCanonical :: "nat \<Rightarrow> string" where
  "Ulid_toCanonical bytes = encode_with crockford_alphabet 26 bytes"

definition Ulid_isCanonical :: "string \<Rightarrow> bool" where
  "Ulid_isCanonical s =
     (length s = 26 \<and> list_all (\<lambda>c. c \<in> set ''01234567'') (take 1 s)
      \<and> list_all (\<lambda>c. c \<in> set crockford_alphabet) s)"

definition Ulid_fromCanonicalTrusted :: "string \<Rightarrow> nat" where
  "Ulid_fromCanonicalTrusted s = decode_with crockford_alphabet s"

text \<open>
  \<^verbatim>\<open>Ulid.generate({ time })\<close>: the timestamp in milliseconds in the upper 48 bits
  (the 48 low bits of the time given), the 80 random bits \<open>r\<close> below it. The
  specification describes no time that does not fit into 48 bits; such a time is reduced
  modulo \<open>2 ^ 48\<close> here, whereas the library refuses it.
\<close>

definition Ulid_generate :: "int \<Rightarrow> nat \<Rightarrow> nat" where
  "Ulid_generate time r = nat (time mod 2 ^ 48) * 2 ^ 80 + r mod 2 ^ 80"

subsection \<open>Identifier functions of the migration tool\<close>

text \<open>
  \<^verbatim>\<open>parseUuidOrUlid\<close> (migrate.mts, lines 45 to 59): the bytes of the input, read as a
  canonical ULID, else as a canonical UUID, else as a raw UUID (which raises when the
  input is not one); the result is the pair of canonical UUID and canonical ULID texts.
\<close>

definition parseUuidOrUlid :: "string \<Rightarrow> exn + (string \<times> string)" where
  "parseUuidOrUlid input =
     (case (if Ulid_isCanonical input then Inr (Ulid_fromCanonicalTrusted input)
            else if Uuid_isCanonical input then Inr (Uuid_fromCanonicalTrusted input)
            else Uuid_fromRaw input) of
        Inl e \<Rightarrow> Inl e
      | Inr bytes \<Rightarrow> Inr (Uuid_toCanonical bytes, Ulid_toCanonical bytes))"

section \<open>Source and target records\<close>

text \<open>
  The rows of the source store (Synapse), with the columns the migration reads. A column
  that may be \<^verbatim>\<open>null\<close> is an \<open>option\<close>; a timestamp is an integer. Where two
  tables have a column of the same name, the field carries a prefix (\<open>tp_\<close>, \<open>ei_\<close>,
  \<open>at_\<close>, \<open>rt_\<close>).
\<close>

record SUser =
  name :: string
  password_hash :: "string option"
  admin :: int
  is_guest :: int
  deactivated :: int
  creation_ts :: int
  appservice_id :: "string option"

record SUserThreePid =
  tp_user_id :: string
  medium :: string
  address :: string
  validated_at :: "int option"
  added_at :: int

record SUserExternalId =
  auth_provider :: string
  external_id :: string
  ei_user_id :: string

record SAccessToken =
  at_id :: int
  at_user_id :: string
  device_id :: "string option"
  token :: string
  last_validated :: "int option"
  refresh_token_id :: "int option"

record SRefreshToken =
  rt_id :: int
  rt_token :: string

record synapse_db =
  users :: "SUser list"
  user_threepids :: "SUserThreePid list"
  user_external_ids :: "SUserExternalId list"
  access_tokens :: "SAccessToken list"
  refresh_tokens :: "SRefreshToken list"

text \<open>
  The rows of the target store (MAS). A \<^verbatim>\<open>Date\<close> is its number of milliseconds since
  the epoch. Fields named \<open>user_id\<close>, \<open>created_at\<close>, \<open>compat_session_id\<close> and so on
  in several tables carry a prefix after the first (\<open>pw_\<close>, \<open>em_\<close>, \<open>ln_\<close>, \<open>cs_\<close>,
  \<open>ca_\<close>, \<open>cr_\<close>).
\<close>

record MUser =
  user_id :: string
  username :: string
  created_at :: int
  locked_at :: "int option"
  can_request_admin :: bool

record MUserPassword =
  user_password_id :: string
  pw_user_id :: string
  hashed_password :: string
  pw_created_at :: int
  version :: int

record MUserEmail =
  user_email_id :: string
  em_user_id :: string
  email :: string
  em_created_at :: int
  confirmed_at :: "int option"

record MUpstreamOauthProvider =
  upstream_oauth_provider_id :: string
  issuer :: string

record MUpstreamOauthLink =
  upstream_oauth_link_id :: string
  ln_user_id :: string
  ln_upstream_oauth_provider_id :: string
  subject :: string
  ln_created_at :: int

record MCompatSession =
  compat_session_id :: string
  cs_user_id :: string
  cs_device_id :: "string option"
  cs_created_at :: int
  is_synapse_admin :: bool

record MCompatAccessToken =
  compat_access_token_id :: string
  ca_compat_session_id :: string
  access_token :: string
  ca_created_at :: int

record MCompatRefreshToken =
  compat_refresh_token_id :: string
  cr_compat_session_id :: string
  cr_compat_access_token_id :: string
  refresh_token :: string
  cr_created_at :: int

text \<open>A row together with the table it is inserted into.\<close>

datatype row =
    Users MUser
  | UserPasswords MUserPassword
  | UserEmails MUserEmail
  | UpstreamOauthLinks MUpstreamOauthLink
  | CompatSessions MCompatSession
  | CompatAccessTokens MCompatAccessToken
  | CompatRefreshTokens MCompatRefreshToken

section \<open>The run: options, stores, log and counters\<close>

record MigrationOptions =
  upstreamProviderMapping :: "string list"
  dryRun :: bool

datatype level = FATAL | ERROR | WARN | INFO

text \<open>The queries the run issues against the source store.\<close>

datatype query =
    SelectUsers
  | SelectThreePids string
  | SelectExternalIds string
  | SelectAccessTokens string
  | SelectRefreshToken int

text \<open>
  Everything the run reads and changes besides the source rows: the target store
  (\<open>mas_rows\<close>: the rows every connection sees; \<open>mas_trx\<close>: the rows written
  through an open transaction and not yet committed; \<open>mas_rejects\<close>: the store's
  constraints, telling whether an insertion is refused given the rows present;
  \<open>upstream_oauth_providers\<close>: the provider table), the queries issued against the
  source store and whether the source store refuses a query (\<open>synapse_rejects\<close>: the
  connection is lost, a table is missing), the log lines at levels fatal to info (the
  debug lines, which render
  records, are the subject of the section on redaction), the closure variables
  \<open>warnings\<close> and \<open>fatals\<close> of \<^verbatim>\<open>migrate\<close>, and the random numbers handed to
  \<^verbatim>\<open>Ulid.generate\<close> (\<open>random\<close>, of which \<open>drawn\<close> are used up).
\<close>

record world =
  mas_rows :: "row list"
  mas_trx :: "row list option"
  mas_rejects :: "row list \<Rightarrow> row \<Rightarrow> bool"
  upstream_oauth_providers :: "MUpstreamOauthProvider list"
  synapse_queries :: "query list"
  synapse_rejects :: "query \<Rightarrow> bool"
  logged :: "(level \<times> string) list"
  warnings :: "string list"
  fatals :: nat
  random :: "nat \<Rightarrow> nat"
  drawn :: nat

text \<open>
  The result of a step: it returns a value, or throws, or ends the process
  (\<^verbatim>\<open>process.exit\<close>); each time with the state of the world it leaves.
\<close>

datatype 'a res = Ok 'a world | Thrown exn world | Exited int world

fun world_of :: "'a res \<Rightarrow> world" where
  "world_of (Ok x w) = w"
| "world_of (Thrown e w) = w"
| "world_of (Exited c w) = w"

definition bind :: "'a res \<Rightarrow> ('a \<Rightarrow> world \<Rightarrow> 'b res) \<Rightarrow> 'b res" where
  "bind m f = (case m of Ok x w \<Rightarrow> f x w | Thrown e w \<Rightarrow> Thrown e w | Exited c w \<Rightarrow> Exited c w)"

text \<open>\<^verbatim>\<open>for (const x of xs) { body }\<close>, the body changing the local variables \<open>s\<close>.\<close>

fun forEach :: "('a \<Rightarrow> 's \<Rightarrow> world \<Rightarrow> 's res) \<Rightarrow> 'a list \<Rightarrow> 's \<Rightarrow> world \<Rightarrow> 's res" where
  "forEach body [] s w = Ok s w"
| "forEach body (x # xs) s w =
     (case body x s w of
        Ok s' w' \<Rightarrow> forEach body xs s' w'
      | Thrown e w' \<Rightarrow> Thrown e w'
      | Exited c w' \<Rightarrow> Exited c w')"

definition say :: "level \<Rightarrow> string \<Rightarrow> world \<Rightarrow> world" where
  "say l message w = w\<lparr>logged := logged w @ [(l, message)]\<rparr>"

definition issue :: "query \<Rightarrow> world \<Rightarrow> world" where
  "issue q w = w\<lparr>synapse_queries := synapse_queries w @ [q]\<rparr>"

text \<open>
  \<^verbatim>\<open>await synapse.select(...)\<close>: the query is issued; when the source store refuses it
  the promise is rejected and the \<^verbatim>\<open>await\<close> throws. The rows of a query that is
  answered are read from the tables of the source store.
\<close>

definition synapseSelect :: "query \<Rightarrow> world \<Rightarrow> unit res" where
  "synapseSelect q w =
     (if synapse_rejects w q then Thrown QueryRejected (issue q w) else Ok () (issue q w))"

text \<open>\<^verbatim>\<open>warn\<close> (lines 100 to 103).\<close>

definition warn :: "string \<Rightarrow> world \<Rightarrow> world" where
  "warn message w = w\<lparr>warnings := warnings w @ [message]\<rparr>"

text \<open>
  \<^verbatim>\<open>fatal\<close> (lines 105 to 113): the message at level fatal, every warning recorded so
  far at level warn, then the end of the process unless this is a dry run, in which case
  the fatal is counted.
\<close>

definition fatal :: "MigrationOptions \<Rightarrow> string \<Rightarrow> world \<Rightarrow> unit res" where
  "fatal args message w =
     (let w1 = say FATAL message w;
          w2 = foldl (\<lambda>a m. say WARN m a) w1 (warnings w1)
      in if \<not> dryRun args then Exited 1 w2
         else Ok () (w2\<lparr>fatals := fatals w2 + 1\<rparr>))"

text \<open>
  \<^verbatim>\<open>makeUuid(time)\<close> (lines 115 to 119): the canonical UUID text of a ULID generated
  for that time, with the next of the random numbers.
\<close>

definition makeUuid :: "int \<Rightarrow> world \<Rightarrow> string \<times> world" where
  "makeUuid time w =
     (Uuid_toCanonical (Ulid_generate time (random w (drawn w))), w\<lparr>drawn := drawn w + 1\<rparr>)"

subsection \<open>The query builder (knex)\<close>

text \<open>
  The query builder is a dependency outside the sources; its documented behaviour is
  modelled. \<^verbatim>\<open>mas.transaction()\<close> opens a transaction on a connection of its own and
  returns the transaction object. A query built on the transaction object belongs to the
  transaction: its rows become visible at \<^verbatim>\<open>commit\<close> and are dropped at
  \<^verbatim>\<open>rollback\<close>. A query built on the root object \<^verbatim>\<open>mas\<close> runs on another
  connection and takes effect at once, whether or not a transaction is open.
\<close>

datatype handle = Mas | Trx

definition knex_transaction :: "world \<Rightarrow> world" where
  "knex_transaction w = w\<lparr>mas_trx := Some []\<rparr>"

definition knex_insert :: "handle \<Rightarrow> row \<Rightarrow> world \<Rightarrow> unit res" where
  "knex_insert h r w =
     (case h of
        Mas \<Rightarrow>
          if mas_rejects w (mas_rows w) r then Thrown ConstraintViolation w
          else Ok () (w\<lparr>mas_rows := mas_rows w @ [r]\<rparr>)
      | Trx \<Rightarrow>
          (case mas_trx w of
             None \<Rightarrow> Thrown (Error ''Transaction query already complete'') w
           | Some pending \<Rightarrow>
               if mas_rejects w (mas_rows w @ pending) r then Thrown ConstraintViolation w
               else Ok () (w\<lparr>mas_trx := Some (pending @ [r])\<rparr>)))"

definition trx_commit :: "world \<Rightarrow> world" where
  "trx_commit w =
     (case mas_trx w of
        None \<Rightarrow> w
      | Some pending \<Rightarrow> w\<lparr>mas_rows := mas_rows w @ pending, mas_trx := None\<rparr>)"

definition trx_rollback :: "world \<Rightarrow> world" where
  "trx_rollback w = w\<lparr>mas_trx := None\<rparr>"

section \<open>The migration of one user\<close>

text \<open>
  \<^verbatim>\<open>if (x)\<close> on a value that is a string or absent, and on one that is a number or
  absent: the empty string, zero and an absent value count as false. The integer columns
  of the source rows are numbers, as the type declarations say; a driver that delivers a
  64-bit integer as its decimal string makes a zero count as true, which is not modelled.
\<close>

definition truthy_string :: "string option \<Rightarrow> bool" where
  "truthy_string x = (case x of None \<Rightarrow> False | Some s \<Rightarrow> s \<noteq> [])"

definition truthy_int :: "int option \<Rightarrow> bool" where
  "truthy_int x = (case x of None \<Rightarrow> False | Some i \<Rightarrow> i \<noteq> 0)"

text \<open>\<^verbatim>\<open>`${e}`\<close> for a thrown value.\<close>

fun exn_string :: "exn \<Rightarrow> string" where
  "exn_string (Error m) = ''Error: '' @ m"
| "exn_string InvalidEncoding = ''InvalidEncoding''"
| "exn_string ConstraintViolation = ''ConstraintViolation''"
| "exn_string QueryRejected = ''QueryRejected''"

text \<open>Lines 208 to 217: the creation time and the target user.\<close>

definition userCreatedAt :: "SUser \<Rightarrow> int" where
  "userCreatedAt user = creation_ts user * 1000"

definition masUser :: "SUser \<Rightarrow> string \<Rightarrow> MUser" where
  "masUser user uid =
     \<lparr>user_id = uid,
      username = localpart (name user),
      created_at = userCreatedAt user,
      locked_at = (if deactivated user = 1 then Some (userCreatedAt user) else None),
      can_request_admin = (admin user = 1)\<rparr>"

text \<open>
  The local variables of \<^verbatim>\<open>migrateUser\<close>: \<^verbatim>\<open>warningsForUser\<close> and
  \<^verbatim>\<open>executions\<close>. Each execution is a closure that inserts one row through the root
  object \<^verbatim>\<open>mas\<close>; the list holds the rows.
\<close>

type_synonym locals = "nat \<times> row list"

text \<open>Lines 221 to 236: the password row.\<close>

definition masUserPassword :: "SUser \<Rightarrow> MUser \<Rightarrow> string \<Rightarrow> string \<Rightarrow> MUserPassword" where
  "masUserPassword user mu h pid =
     \<lparr>user_password_id = pid,
      pw_user_id = user_id mu,
      hashed_password = h,
      pw_created_at = created_at mu,
      version = 1\<rparr>"

definition password :: "SUser \<Rightarrow> MUser \<Rightarrow> locals \<Rightarrow> world \<Rightarrow> locals res" where
  "password user mu s w =
     (case password_hash user of
        None \<Rightarrow> Ok s w
      | Some h \<Rightarrow>
          if h = [] then Ok s w
          else (case makeUuid (userCreatedAt user) w of
                  (pid, w') \<Rightarrow>
                    Ok (fst s, snd s @ [UserPasswords (masUserPassword user mu h pid)]) w'))"

text \<open>Lines 243 to 273: the body of the loop over the three-pids of the user.\<close>

definition masUserEmail :: "MUser \<Rightarrow> SUserThreePid \<Rightarrow> string \<Rightarrow> MUserEmail" where
  "masUserEmail mu threePid eid =
     \<lparr>user_email_id = eid,
      em_user_id = user_id mu,
      email = toLowerCase (address threePid),
      em_created_at = added_at threePid,
      confirmed_at = (if truthy_int (validated_at threePid) then validated_at threePid else None)\<rparr>"

definition threePidStep :: "SUser \<Rightarrow> MUser \<Rightarrow> SUserThreePid \<Rightarrow> locals \<Rightarrow> world \<Rightarrow> locals res" where
  "threePidStep user mu threePid s w =
     (if medium threePid \<noteq> ''email''
      then Ok (fst s + 1, snd s)
             (warn (''Skipping non-email 3pid '' @ medium threePid @ '' for user '' @ name user) w)
      else (case makeUuid (added_at threePid) w of
              (eid, w') \<Rightarrow> Ok (fst s, snd s @ [UserEmails (masUserEmail mu threePid eid)]) w'))"

text \<open>
  Lines 280 to 310: the body of the loop over the external ids of the user, with its
  \<^verbatim>\<open>try\<close> and \<^verbatim>\<open>catch\<close>.
\<close>

definition masUpstreamOauthLink ::
  "MUser \<Rightarrow> MUpstreamOauthProvider \<Rightarrow> SUserExternalId \<Rightarrow> string \<Rightarrow> MUpstreamOauthLink" where
  "masUpstreamOauthLink mu provider externalId lid =
     \<lparr>upstream_oauth_link_id = lid,
      ln_user_id = user_id mu,
      ln_upstream_oauth_provider_id = upstream_oauth_provider_id provider,
      subject = external_id externalId,
      ln_created_at = created_at mu\<rparr>"

definition externalIdTry ::
  "(string \<rightharpoonup> MUpstreamOauthProvider) \<Rightarrow> SUser \<Rightarrow> MUser \<Rightarrow> SUserExternalId \<Rightarrow> locals \<Rightarrow> world
   \<Rightarrow> locals res" where
  "externalIdTry upstreamProviders user mu externalId s w =
     (case upstreamProviders (auth_provider externalId) of
        None \<Rightarrow> Thrown (Error (''Unknown upstream provider '' @ auth_provider externalId)) w
      | Some provider \<Rightarrow>
          (case makeUuid (userCreatedAt user) w of
             (lid, w') \<Rightarrow>
               Ok (fst s, snd s @ [UpstreamOauthLinks (masUpstreamOauthLink mu provider externalId lid)]) w'))"

definition externalIdStep ::
  "MigrationOptions \<Rightarrow> (string \<rightharpoonup> MUpstreamOauthProvider) \<Rightarrow> SUser \<Rightarrow> MUser \<Rightarrow> SUserExternalId
   \<Rightarrow> locals \<Rightarrow> world \<Rightarrow> locals res" where
  "externalIdStep args upstreamProviders user mu externalId s w =
     (case externalIdTry upstreamProviders user mu externalId s w of
        Ok s' w' \<Rightarrow> Ok s' w'
      | Thrown e w' \<Rightarrow>
          bind (fatal args (''Failed to import external id '' @ external_id externalId @ '' with ''
                  @ auth_provider externalId @ '' for user '' @ name user @ '': '' @ exn_string e) w')
            (\<lambda>_ w''. Ok s w'')
      | Exited c w' \<Rightarrow> Exited c w')"

text \<open>
  Lines 326 to 391: the body of the loop over the access tokens of the user, once the
  source store has answered the query for the refresh token (lines 362 to 366).
\<close>

definition tokenCreatedAt :: "MUser \<Rightarrow> SAccessToken \<Rightarrow> int" where
  "tokenCreatedAt mu accessToken =
     (case last_validated accessToken of
        None \<Rightarrow> created_at mu
      | Some t \<Rightarrow> if t \<noteq> 0 then t else created_at mu)"

definition masCompatSession :: "SUser \<Rightarrow> MUser \<Rightarrow> SAccessToken \<Rightarrow> string \<Rightarrow> MCompatSession" where
  "masCompatSession user mu accessToken sid =
     \<lparr>compat_session_id = sid,
      cs_user_id = user_id mu,
      cs_device_id = device_id accessToken,
      cs_created_at = tokenCreatedAt mu accessToken,
      is_synapse_admin = (admin user = 1)\<rparr>"

definition masCompatAccessToken :: "MUser \<Rightarrow> SAccessToken \<Rightarrow> string \<Rightarrow> string \<Rightarrow> MCompatAccessToken" where
  "masCompatAccessToken mu accessToken sid aid =
     \<lparr>compat_access_token_id = aid,
      ca_compat_session_id = sid,
      access_token = token accessToken,
      ca_created_at = tokenCreatedAt mu accessToken\<rparr>"

definition masCompatRefreshToken ::
  "MUser \<Rightarrow> SAccessToken \<Rightarrow> SRefreshToken \<Rightarrow> string \<Rightarrow> string \<Rightarrow> string \<Rightarrow> MCompatRefreshToken" where
  "masCompatRefreshToken mu accessToken synapseRefreshToken sid aid rid =
     \<lparr>compat_refresh_token_id = rid,
      cr_compat_session_id = sid,
      cr_compat_access_token_id = aid,
      refresh_token = rt_token synapseRefreshToken,
      cr_created_at = tokenCreatedAt mu accessToken\<rparr>"

definition accessTokenStep ::
  "synapse_db \<Rightarrow> SUser \<Rightarrow> MUser \<Rightarrow> SAccessToken \<Rightarrow> locals \<Rightarrow> world \<Rightarrow> locals res" where
  "accessTokenStep synapse user mu accessToken s w =
     (case makeUuid (tokenCreatedAt mu accessToken) w of
        (sid, w1) \<Rightarrow>
     (case makeUuid (tokenCreatedAt mu accessToken) w1 of
        (aid, w2) \<Rightarrow>
     (let ex = snd s @ [CompatSessions (masCompatSession user mu accessToken sid),
                        CompatAccessTokens (masCompatAccessToken mu accessToken sid aid)]
      in case refresh_token_id accessToken of
           None \<Rightarrow> Ok (fst s, ex) w2
         | Some r \<Rightarrow>
             if r = 0 then Ok (fst s, ex) w2
             else (case find (\<lambda>t. rt_id t = r) (refresh_tokens synapse) of
                     Some synapseRefreshToken \<Rightarrow>
                       (case makeUuid (tokenCreatedAt mu accessToken) (issue (SelectRefreshToken r) w2) of
                          (rid, w3) \<Rightarrow>
                            Ok (fst s, ex @ [CompatRefreshTokens
                                  (masCompatRefreshToken mu accessToken synapseRefreshToken sid aid rid)]) w3)
                   | None \<Rightarrow>
                       Ok (fst s + 1, ex)
                         (warn (''Unable to locate refresh token '' @ string_of_int r @ '' for user ''
                                  @ name user) (issue (SelectRefreshToken r) w2))))))"

text \<open>
  The same body with the \<^verbatim>\<open>await\<close> of lines 362 to 366: when the source store refuses
  the query for the refresh token, the exception leaves the loop after the two identifiers
  of the session and the access token are drawn and the query is issued; the local
  variables are lost with it.
\<close>

definition accessTokenBody ::
  "synapse_db \<Rightarrow> SUser \<Rightarrow> MUser \<Rightarrow> SAccessToken \<Rightarrow> locals \<Rightarrow> world \<Rightarrow> locals res" where
  "accessTokenBody synapse user mu accessToken s w =
     (case refresh_token_id accessToken of
        None \<Rightarrow> accessTokenStep synapse user mu accessToken s w
      | Some r \<Rightarrow>
          if r \<noteq> 0 \<and> synapse_rejects w (SelectRefreshToken r)
          then Thrown QueryRejected
                 (issue (SelectRefreshToken r)
                    (snd (makeUuid (tokenCreatedAt mu accessToken)
                       (snd (makeUuid (tokenCreatedAt mu accessToken) w)))))
          else accessTokenStep synapse user mu accessToken s w)"

text \<open>Lines 203 to 205: the guest check.\<close>

definition guestCheck :: "MigrationOptions \<Rightarrow> SUser \<Rightarrow> world \<Rightarrow> unit res" where
  "guestCheck args user w =
     (if is_guest user = 1
      then fatal args (''Migration of guest users is not supported: '' @ name user) w
      else Ok () w)"

text \<open>
  Lines 207 to 392: the user row, the password row and the three loops, each loop after
  the awaited query that reads its rows. The result is the final value of the two local
  variables.
\<close>

definition userRows ::
  "MigrationOptions \<Rightarrow> synapse_db \<Rightarrow> (string \<rightharpoonup> MUpstreamOauthProvider) \<Rightarrow> SUser \<Rightarrow> world
   \<Rightarrow> locals res" where
  "userRows args synapse upstreamProviders user w =
     (case makeUuid (userCreatedAt user) w of (uid, w2) \<Rightarrow>
     bind (password user (masUser user uid) (0, [Users (masUser user uid)]) w2)
     (\<lambda>s1 w3.
     bind (synapseSelect (SelectThreePids (name user)) w3)
     (\<lambda>_ w3'.
     bind (forEach (threePidStep user (masUser user uid))
             (filter (\<lambda>t. tp_user_id t = name user) (user_threepids synapse)) s1 w3')
     (\<lambda>s2 w4.
     bind (synapseSelect (SelectExternalIds (name user)) w4)
     (\<lambda>_ w4'.
     bind (forEach (externalIdStep args upstreamProviders user (masUser user uid))
             (filter (\<lambda>e. ei_user_id e = name user) (user_external_ids synapse)) s2 w4')
     (\<lambda>s3 w5.
       if deactivated user = 1
       then Ok s3 (say INFO (''Skipping access tokens import for deactivated user '' @ name user) w5)
       else bind (synapseSelect (SelectAccessTokens (name user)) w5)
              (\<lambda>_ w5'. forEach (accessTokenBody synapse user (masUser user uid))
                         (filter (\<lambda>t. at_user_id t = name user \<and> device_id t \<noteq> None)
                            (access_tokens synapse)) s3 w5')))))))"

text \<open>
  Lines 197 to 392: everything \<^verbatim>\<open>migrateUser\<close> does before it decides what becomes
  of the user.
\<close>

definition deriveRows ::
  "MigrationOptions \<Rightarrow> synapse_db \<Rightarrow> (string \<rightharpoonup> MUpstreamOauthProvider) \<Rightarrow> SUser \<Rightarrow> world
   \<Rightarrow> locals res" where
  "deriveRows args synapse upstreamProviders user w =
     bind (guestCheck args user
             (say INFO (''Processing user '' @ name user @ '' as '' @ localpart (name user)) w))
       (\<lambda>_. userRows args synapse upstreamProviders user)"

text \<open>
  Lines 401 to 417: the transaction. Every execution inserts through \<^verbatim>\<open>mas\<close>, the
  root object (lines 218, 235, 272, 303, 343, 358 and 382); \<^verbatim>\<open>tx\<close> is only
  committed or rolled back.
\<close>

definition execution :: "row \<Rightarrow> unit \<Rightarrow> world \<Rightarrow> unit res" where
  "execution r u w = knex_insert Mas r w"

definition commitUser :: "SUser \<Rightarrow> row list \<Rightarrow> world \<Rightarrow> unit res" where
  "commitUser user executions w =
     (case forEach execution executions ()
             (knex_transaction
                (say INFO (''Running '' @ string_of_nat (length executions) @ '' updates for user ''
                             @ name user) w)) of
        Ok _ w' \<Rightarrow> Ok () (say INFO (''Migrated user '' @ name user) (trx_commit w'))
      | Thrown e w' \<Rightarrow> Thrown e (trx_rollback w')
      | Exited c w' \<Rightarrow> Exited c w')"

text \<open>Lines 394 to 417: what becomes of the user.\<close>

definition disposition :: "MigrationOptions \<Rightarrow> SUser \<Rightarrow> locals \<Rightarrow> world \<Rightarrow> unit res" where
  "disposition args user s w =
     (if fst s > 0 then
        (if \<not> dryRun args
         then fatal args (''User '' @ name user @ '' had '' @ string_of_nat (fst s) @ '' warnings'') w
         else Ok () (say WARN (''User '' @ name user @ '' had '' @ string_of_nat (fst s) @ '' warnings'') w))
      else if \<not> dryRun args then commitUser user (snd s) w
      else Ok () w)"

definition migrateUser ::
  "MigrationOptions \<Rightarrow> synapse_db \<Rightarrow> (string \<rightharpoonup> MUpstreamOauthProvider) \<Rightarrow> SUser \<Rightarrow> world
   \<Rightarrow> unit res" where
  "migrateUser args synapse upstreamProviders user w =
     bind (deriveRows args synapse upstreamProviders user w) (disposition args user)"

section \<open>The run\<close>

text \<open>
  Lines 139 to 172: the body of the loop over the provider mappings.
  \<^verbatim>\<open>const [providerId, masProviderId] = mapping.split(":")\<close> takes elements 0 and 1 of the
  split; a missing element is \<^verbatim>\<open>undefined\<close>.
\<close>

definition upstreamProviderMappingStep ::
  "string \<Rightarrow> (string \<rightharpoonup> MUpstreamOauthProvider) \<Rightarrow> world \<Rightarrow> (string \<rightharpoonup> MUpstreamOauthProvider) res" where
  "upstreamProviderMappingStep mapping upstreamProviders w =
     (if \<not> truthy_string (js_nth (js_split CHR '':'' mapping) 0)
         \<or> \<not> truthy_string (js_nth (js_split CHR '':'' mapping) 1)
      then Thrown (Error (''Upstream provider mapping is not in correct format. It should be <upstream_provider_id>:<mas_provider_id>: '' @ mapping)) w
      else (case (js_nth (js_split CHR '':'' mapping) 0, js_nth (js_split CHR '':'' mapping) 1) of
              (Some providerId, Some masProviderId) \<Rightarrow>
                if \<not> Uuid_isRaw masProviderId \<and> \<not> Uuid_isCanonical masProviderId
                   \<and> \<not> Ulid_isCanonical masProviderId
                then Thrown (Error (''Upstream provider mapping is not in correct format. It should be a UUID or a ULID: '' @ masProviderId)) w
                else (case parseUuidOrUlid masProviderId of
                        Inl e \<Rightarrow> Thrown e w
                      | Inr (masProviderUuid, masProviderUlid) \<Rightarrow>
                          (case find (\<lambda>p. upstream_oauth_provider_id p = masProviderUuid)
                                  (upstream_oauth_providers w) of
                             None \<Rightarrow>
                               Thrown (Error (''Could not find upstream provider '' @ masProviderUlid @ '' in MAS database''))
                                 (say INFO (''Loading existing upstream provider '' @ masProviderUlid
                                              @ '' from MAS database as '' @ providerId) w)
                           | Some existingProvider \<Rightarrow>
                               Ok (upstreamProviders(providerId \<mapsto> existingProvider))
                                 (say INFO (''Loading existing upstream provider '' @ masProviderUlid
                                              @ '' from MAS database as '' @ providerId) w)))
            | _ \<Rightarrow> Thrown (Error (''Upstream provider mapping is not in correct format. It should be <upstream_provider_id>:<mas_provider_id>: '' @ mapping)) w))"

text \<open>Lines 185 to 194: the number of rows in the target user table.\<close>

fun is_Users :: "row \<Rightarrow> bool" where
  "is_Users (Users u) = True"
| "is_Users r = False"

definition existingMasUsers :: "world \<Rightarrow> nat" where
  "existingMasUsers w = length (filter is_Users (mas_rows w))"

text \<open>
  Lines 437 to 452: the loop over the source users. With SQLite the rows are read at once,
  otherwise they are streamed; both loops see the same rows in the same order.
\<close>

definition userStep ::
  "MigrationOptions \<Rightarrow> synapse_db \<Rightarrow> (string \<rightharpoonup> MUpstreamOauthProvider) \<Rightarrow> SUser \<Rightarrow> nat \<Rightarrow> world
   \<Rightarrow> nat res" where
  "userStep args synapse upstreamProviders user synapseUsers w =
     bind (migrateUser args synapse upstreamProviders user w) (\<lambda>_ w'. Ok (synapseUsers + 1) w')"

text \<open>Lines 454 to 460: the summary.\<close>

definition summary :: "MigrationOptions \<Rightarrow> nat \<Rightarrow> world \<Rightarrow> unit res" where
  "summary args synapseUsers w =
     (let w1 = say INFO (''Completed migration '' @ (if dryRun args then ''dry-run '' else [])
                  @ ''of '' @ string_of_nat synapseUsers @ '' users with ''
                  @ string_of_nat (fatals w) @ '' fatals and ''
                  @ string_of_nat (length (warnings w)) @ '' warnings:'') w;
          w2 = foldl (\<lambda>a m. say WARN m a) w1 (warnings w1)
      in if fatals w2 > 0
         then Thrown (Error (''Migration failed with '' @ string_of_nat (fatals w2) @ '' fatals'')) w2
         else Ok () w2)"

text \<open>
  \<^verbatim>\<open>migrate\<close> once the options are parsed and both stores are connected:
  \<^verbatim>\<open>warnings\<close> and \<^verbatim>\<open>fatals\<close> start empty and at zero (lines 100 and 105), then
  come the provider mappings, the check of the target user table, the loop over the
  users and the summary. \<open>sqlite3\<close> tells whether the source store is SQLite.
\<close>

definition migrate :: "MigrationOptions \<Rightarrow> bool \<Rightarrow> synapse_db \<Rightarrow> world \<Rightarrow> unit res" where
  "migrate args sqlite3 synapse w =
     bind (forEach upstreamProviderMappingStep (upstreamProviderMapping args) Map.empty
             (w\<lparr>warnings := [], fatals := 0\<rparr>))
     (\<lambda>upstreamProviders w1.
     bind (if existingMasUsers w1 > 0
           then fatal args (''Found '' @ string_of_nat (existingMasUsers w1)
                  @ '' existing users in MAS. Refusing to continue. Please clean MAS and try again.'') w1
           else Ok () w1)
     (\<lambda>_ w2.
     bind (synapseSelect SelectUsers w2)
     (\<lambda>_ w3.
     bind (if sqlite3
           then forEach (userStep args synapse upstreamProviders)
                  (filter (\<lambda>u. appservice_id u = None) (users synapse)) 0 w3
           else forEach (userStep args synapse upstreamProviders)
                  (filter (\<lambda>u. appservice_id u = None) (users synapse)) 0 w3)
     (summary args))))"

section \<open>Rendering records for the log\<close>

text \<open>
  \<^verbatim>\<open>JSON.stringify\<close> on a flat record, as the tool logs them: the fields in order,
  each value \<^verbatim>\<open>null\<close>, a boolean, an integer or a string (a \<^verbatim>\<open>Date\<close> is rendered
  by \<^verbatim>\<open>JSON.stringify\<close> as a string). In a string, the double quote (code 0x22) and
  the backslash (code 0x5C) are escaped with a backslash, the control characters 0x08 to
  0x0D with their letter, and the other characters below 0x20 with \<^verbatim>\<open>\u00XX\<close>.
\<close>

datatype jvalue = JNull | JBool bool | JNumber int | JString string

type_synonym jobject = "(string \<times> jvalue) list"

definition json_escape :: "char \<Rightarrow> string" where
  "json_escape c =
     (if c = CHR 0x22 then [CHR 0x5C, CHR 0x22]
      else if c = CHR 0x5C then [CHR 0x5C, CHR 0x5C]
      else if c = CHR 0x08 then [CHR 0x5C, CHR ''b'']
      else if c = CHR 0x09 then [CHR 0x5C, CHR ''t'']
      else if c = CHR 0x0A then [CHR 0x5C, CHR ''n'']
      else if c = CHR 0x0C then [CHR 0x5C, CHR ''f'']
      else if c = CHR 0x0D then [CHR 0x5C, CHR ''r'']
      else if (of_char c :: nat) < 32
      then [CHR 0x5C, CHR ''u'', CHR ''0'', CHR ''0'',
            ''0123456789abcdef'' ! (of_char c div 16), ''0123456789abcdef'' ! (of_char c mod 16)]
      else [c])"

definition json_quote :: "string \<Rightarrow> string" where
  "json_quote s = CHR 0x22 # concat (map json_escape s) @ [CHR 0x22]"

fun json_value :: "jvalue \<Rightarrow> string" where
  "json_value JNull = ''null''"
| "json_value (JBool b) = (if b then ''true'' else ''false'')"
| "json_value (JNumber i) = string_of_int i"
| "json_value (JString s) = json_quote s"

definition json_field :: "string \<times> jvalue \<Rightarrow> string" where
  "json_field f = json_quote (fst f) @ '':'' @ json_value (snd f)"

fun json_fields :: "jobject \<Rightarrow> string" where
  "json_fields [] = []"
| "json_fields [f] = json_field f"
| "json_fields (f # g # fs) = json_field f @ '','' @ json_fields (g # fs)"

definition JSON_stringify :: "jobject \<Rightarrow> string" where
  "JSON_stringify r = ''{'' @ json_fields r @ ''}''"

text \<open>
  \<^verbatim>\<open>x.replace(/("(password_hash|hashed_password|access_token|token)":")[^"]*"/, '$1redacted"')\<close>
  (lines 177 to 180). The pattern has no \<^verbatim>\<open>g\<close> flag: the leftmost match is replaced and
  the rest of the text is kept. \<open>after_prefix p s\<close> is the rest of \<open>s\<close> behind the
  prefix \<open>p\<close>. \<open>match_names ns s\<close> matches, behind an opening double quote, one of
  the names, then \<^verbatim>\<open>":"\<close>, then the characters up to the next double quote, which
  has to exist; it returns the text of group 1 and the text behind the match.
\<close>

definition sensitive_names :: "string list" where
  "sensitive_names = [''password_hash'', ''hashed_password'', ''access_token'', ''token'']"

fun after_prefix :: "string \<Rightarrow> string \<Rightarrow> string option" where
  "after_prefix [] s = Some s"
| "after_prefix (p # ps) [] = None"
| "after_prefix (p # ps) (c # cs) = (if p = c then after_prefix ps cs else None)"

primrec match_names :: "string list \<Rightarrow> string \<Rightarrow> (string \<times> string) option" where
  "match_names [] s = None"
| "match_names (n # ns) s =
     (case after_prefix (n @ [CHR 0x22, CHR '':'', CHR 0x22]) s of
        None \<Rightarrow> match_names ns s
      | Some v \<Rightarrow>
          (case dropWhile (\<lambda>c. c \<noteq> CHR 0x22) v of
             [] \<Rightarrow> match_names ns s
           | q # rest \<Rightarrow> Some (CHR 0x22 # n @ [CHR 0x22, CHR '':'', CHR 0x22], rest)))"

primrec replace_first :: "string \<Rightarrow> string" where
  "replace_first [] = []"
| "replace_first (c # cs) =
     (if c = CHR 0x22
      then (case match_names sensitive_names cs of
              None \<Rightarrow> c # replace_first cs
            | Some (group1, rest) \<Rightarrow> group1 @ ''redacted'' @ [CHR 0x22] @ rest)
      else c # replace_first cs)"

text \<open>\<^verbatim>\<open>stringifyAndRedact\<close> (lines 174 to 181).\<close>

definition stringifyAndRedact :: "jobject \<Rightarrow> string" where
  "stringifyAndRedact input = replace_first (JSON_stringify input)"

text \<open>
  The debug line for the password (lines 230 to 234):
  \<^verbatim>\<open>`Password ${user.password_hash.slice(-4)} => ${stringifyAndRedact(masUserPassword)}`\<close>.
  \<^verbatim>\<open>slice(-4)\<close> is the last four characters, or the whole string when it is shorter.
\<close>

definition slice_last :: "nat \<Rightarrow> string \<Rightarrow> string" where
  "slice_last n s = drop (length s - n) s"

definition passwordDebugLine :: "string \<Rightarrow> jobject \<Rightarrow> string" where
  "passwordDebugLine password_hash_value masUserPassword_json =
     ''Password '' @ slice_last 4 password_hash_value @ '' => ''
       @ stringifyAndRedact masUserPassword_json"

text \<open>
  A field whose rendering the pattern leaves alone: its name holds no double quote, and it
  is not a field with one of the four names and a string value.
\<close>

fun is_JString :: "jvalue \<Rightarrow> bool" where
  "is_JString (JString s) = True"
| "is_JString v = False"

definition plain_field :: "string \<times> jvalue \<Rightarrow> bool" where
  "plain_field f = (CHR 0x22 \<notin> set (fst f) \<and> \<not> (fst f \<in> set sensitive_names \<and> is_JString (snd f)))"

text \<open>
  \<open>clean A B\<close>: in the text \<open>A @ B\<close> the pattern matches at no double quote of the
  part \<open>A\<close>.
\<close>

definition clean :: "string \<Rightarrow> string \<Rightarrow> bool" where
  "clean A B = (\<forall>a1 a2. A = a1 @ CHR 0x22 # a2 \<longrightarrow> match_names sensitive_names (a2 @ B) = None)"

text \<open>
  The user row as \<^verbatim>\<open>JSON.stringify\<close> sees it at line 219: the columns that the query
  of lines 432 to 435 selects, in the order of \<^verbatim>\<open>SUserColumns\<close> (lines 421 to 429).
\<close>

definition json_string_or_null :: "string option \<Rightarrow> jvalue" where
  "json_string_or_null x = (case x of None \<Rightarrow> JNull | Some s \<Rightarrow> JString s)"

definition SUser_json :: "SUser \<Rightarrow> jobject" where
  "SUser_json user =
     [(''name'', JString (name user)),
      (''password_hash'', json_string_or_null (password_hash user)),
      (''admin'', JNumber (admin user)),
      (''is_guest'', JNumber (is_guest user)),
      (''deactivated'', JNumber (deactivated user)),
      (''creation_ts'', JNumber (creation_ts user)),
      (''appservice_id'', json_string_or_null (appservice_id user))]"

section \<open>Observing rows and results\<close>

text \<open>The rows of one table among a list of rows, in order.\<close>

definition users_of :: "row list \<Rightarrow> MUser list" where
  "users_of rs = concat (map (\<lambda>r. case r of Users u \<Rightarrow> [u] | _ \<Rightarrow> []) rs)"

definition emails_of :: "row list \<Rightarrow> MUserEmail list" where
  "emails_of rs = concat (map (\<lambda>r. case r of UserEmails e \<Rightarrow> [e] | _ \<Rightarrow> []) rs)"

definition links_of :: "row list \<Rightarrow> MUpstreamOauthLink list" where
  "links_of rs = concat (map (\<lambda>r. case r of UpstreamOauthLinks l \<Rightarrow> [l] | _ \<Rightarrow> []) rs)"

definition sessions_of :: "row list \<Rightarrow> MCompatSession list" where
  "sessions_of rs = concat (map (\<lambda>r. case r of CompatSessions c \<Rightarrow> [c] | _ \<Rightarrow> []) rs)"

definition compat_access_tokens_of :: "row list \<Rightarrow> MCompatAccessToken list" where
  "compat_access_tokens_of rs = concat (map (\<lambda>r. case r of CompatAccessTokens c \<Rightarrow> [c] | _ \<Rightarrow> []) rs)"

definition compat_refresh_tokens_of :: "row list \<Rightarrow> MCompatRefreshToken list" where
  "compat_refresh_tokens_of rs = concat (map (\<lambda>r. case r of CompatRefreshTokens c \<Rightarrow> [c] | _ \<Rightarrow> []) rs)"

fun is_UserPasswords :: "row \<Rightarrow> bool" where
  "is_UserPasswords (UserPasswords p) = True"
| "is_UserPasswords r = False"

fun is_UserEmails :: "row \<Rightarrow> bool" where
  "is_UserEmails (UserEmails e) = True"
| "is_UserEmails r = False"

fun is_UpstreamOauthLinks :: "row \<Rightarrow> bool" where
  "is_UpstreamOauthLinks (UpstreamOauthLinks l) = True"
| "is_UpstreamOauthLinks r = False"

text \<open>
  An access token refers to a refresh token that the source store does not have
  (lines 361 to 367 and 384).
\<close>

definition refresh_token_missing :: "synapse_db \<Rightarrow> SAccessToken \<Rightarrow> bool" where
  "refresh_token_missing synapse t =
     (case refresh_token_id t of
        None \<Rightarrow> False
      | Some r \<Rightarrow> r \<noteq> 0 \<and> find (\<lambda>x. rt_id x = r) (refresh_tokens synapse) = None)"

fun is_compat :: "row \<Rightarrow> bool" where
  "is_compat (CompatSessions c) = True"
| "is_compat (CompatAccessTokens c) = True"
| "is_compat (CompatRefreshTokens c) = True"
| "is_compat r = False"

fun is_Ok :: "'a res \<Rightarrow> bool" where
  "is_Ok (Ok x w) = True"
| "is_Ok r = False"

text \<open>
  A result meets a triple of conditions: one on the value and world of a normal return,
  one on the exception thrown and the world it leaves, one on the status and the world
  left by the end of the process.
\<close>

definition res_sat ::
  "('a \<Rightarrow> world \<Rightarrow> bool) \<Rightarrow> (exn \<Rightarrow> world \<Rightarrow> bool) \<Rightarrow> (int \<Rightarrow> world \<Rightarrow> bool) \<Rightarrow> 'a res \<Rightarrow> bool" where
  "res_sat P T E r = (case r of Ok x w \<Rightarrow> P x w | Thrown e w \<Rightarrow> T e w | Exited c w \<Rightarrow> E c w)"






text \<open>
  A condition on the world is stable when logging, recording a warning, issuing a source
  query, drawing an identifier and counting a fatal keep it.
\<close>

definition stable :: "(world \<Rightarrow> bool) \<Rightarrow> bool" where
  "stable I = (\<forall>w. I w \<longrightarrow>
      (\<forall>l m. I (say l m w)) \<and> (\<forall>m. I (warn m w)) \<and> (\<forall>q. I (issue q w))
      \<and> (\<forall>t. I (snd (makeUuid t w))) \<and> I (w\<lparr>fatals := Suc (fatals w)\<rparr>))"

section \<open>Example stores\<close>

text \<open>
  Concrete inputs on which the theorems below are exercised: an empty target store that
  accepts every row, the user of the end-to-end example of the specification with her
  e-mail address and one access token, and the two run modes without provider mappings.
\<close>

definition empty_world :: world where
  "empty_world =
     \<lparr>mas_rows = [], mas_trx = None, mas_rejects = (\<lambda>rows r. False),
      upstream_oauth_providers = [], synapse_queries = [],
      synapse_rejects = (\<lambda>q. False), logged = [], warnings = [],
      fatals = 0, random = (\<lambda>n. n), drawn = 0\<rparr>"

definition alice :: SUser where
  "alice =
     \<lparr>name = ''@alice:example.org'', password_hash = Some ''$2b$12$abcdefgh'', admin = 0,
      is_guest = 0, deactivated = 0, creation_ts = 1700000000, appservice_id = None\<rparr>"

definition alice_email :: SUserThreePid where
  "alice_email =
     \<lparr>tp_user_id = ''@alice:example.org'', medium = ''email'', address = ''alice@Example.ORG'',
      validated_at = Some 1700000001000, added_at = 1700000000500\<rparr>"

definition alice_phone :: SUserThreePid where
  "alice_phone =
     \<lparr>tp_user_id = ''@alice:example.org'', medium = ''msisdn'', address = ''4915100000000'',
      validated_at = None, added_at = 1700000000600\<rparr>"

definition alice_token :: SAccessToken where
  "alice_token =
     \<lparr>at_id = 1, at_user_id = ''@alice:example.org'', device_id = Some ''DEVICE1'',
      token = ''syt_secret'', last_validated = Some 1700000002000, refresh_token_id = None\<rparr>"

definition alice_link :: SUserExternalId where
  "alice_link =
     \<lparr>auth_provider = ''oidc-main'', external_id = ''alice-sub'', ei_user_id = ''@alice:example.org''\<rparr>"

definition example_provider :: MUpstreamOauthProvider where
  "example_provider =
     \<lparr>upstream_oauth_provider_id = ''018BCFE5-6800-0000-0000-000000003039'',
      issuer = ''https://idp.example.org''\<rparr>"

definition example_synapse :: synapse_db where
  "example_synapse =
     \<lparr>users = [alice], user_threepids = [alice_email], user_external_ids = [],
      access_tokens = [alice_token], refresh_tokens = []\<rparr>"

definition guest_user :: SUser where
  "guest_user =
     \<lparr>name = ''@visitor:example.org'', password_hash = None, admin = 0,
      is_guest = 1, deactivated = 0, creation_ts = 1700000100, appservice_id = None\<rparr>"

definition guest_synapse :: synapse_db where
  "guest_synapse =
     \<lparr>users = [guest_user], user_threepids = [], user_external_ids = [],
      access_tokens = [], refresh_tokens = []\<rparr>"

text \<open>A target store that already holds one user.\<close>

definition migrated_world :: world where
  "migrated_world =
     \<lparr>mas_rows = [Users \<lparr>user_id = ''018BCFE5-6800-0000-0000-000000000000'', username = ''bob'',
                            created_at = 1700000000000, locked_at = None, can_request_admin = False\<rparr>],
      mas_trx = None, mas_rejects = (\<lambda>rows r. False),
      upstream_oauth_providers = [], synapse_queries = [],
      synapse_rejects = (\<lambda>q. False), logged = [], warnings = [],
      fatals = 0, random = (\<lambda>n. n), drawn = 0\<rparr>"

text \<open>An empty target store that refuses every e-mail row.\<close>

definition email_rejecting_world :: world where
  "email_rejecting_world =
     \<lparr>mas_rows = [], mas_trx = None, mas_rejects = (\<lambda>rows r. is_UserEmails r),
      upstream_oauth_providers = [], synapse_queries = [],
      synapse_rejects = (\<lambda>q. False), logged = [], warnings = [],
      fatals = 0, random = (\<lambda>n. n), drawn = 0\<rparr>"

text \<open>A deactivated user with an e-mail address, a link to a provider and an access token.\<close>

definition carol :: SUser where
  "carol =
     \<lparr>name = ''@carol:example.org'', password_hash = None, admin = 1,
      is_guest = 0, deactivated = 1, creation_ts = 1600000000, appservice_id = None\<rparr>"

definition carol_synapse :: synapse_db where
  "carol_synapse =
     \<lparr>users = [carol],
      user_threepids =
        [\<lparr>tp_user_id = ''@carol:example.org'', medium = ''email'', address = ''Carol@example.org'',
          validated_at = None, added_at = 1600000005000\<rparr>],
      user_external_ids =
        [\<lparr>auth_provider = ''oidc-main'', external_id = ''carol-sub'',
          ei_user_id = ''@carol:example.org''\<rparr>],
      access_tokens =
        [\<lparr>at_id = 2, at_user_id = ''@carol:example.org'', device_id = Some ''DEVICE2'',
          token = ''syt_carol'', last_validated = None, refresh_token_id = None\<rparr>],
      refresh_tokens = []\<rparr>"

definition example_providers :: "string \<rightharpoonup> MUpstreamOauthProvider" where
  "example_providers = (\<lambda>k. if k = ''oidc-main'' then Some example_provider else None)"

text \<open>An empty target store that knows the example provider.\<close>

definition provider_world :: world where
  "provider_world =
     \<lparr>mas_rows = [], mas_trx = None, mas_rejects = (\<lambda>rows r. False),
      upstream_oauth_providers = [example_provider], synapse_queries = [],
      synapse_rejects = (\<lambda>q. False), logged = [],
      warnings = [], fatals = 0, random = (\<lambda>n. n), drawn = 0\<rparr>"




text \<open>
  The two records of the password debug line for the example user, as
  \<^verbatim>\<open>JSON.stringify\<close> sees them, and a user without a password.
\<close>

definition alice_json :: jobject where
  "alice_json =
     [(''name'', JString ''@alice:example.org''), (''password_hash'', JString ''$2b$12$abcdefgh''),
      (''admin'', JNumber 0), (''is_guest'', JNumber 0), (''deactivated'', JNumber 0),
      (''creation_ts'', JNumber 1700000000), (''appservice_id'', JNull)]"

definition alice_password_json :: jobject where
  "alice_password_json =
     [(''user_password_id'', JString ''018BCFE5-6800-0000-0000-000000000001''),
      (''user_id'', JString ''018BCFE5-6800-0000-0000-000000000000''),
      (''hashed_password'', JString ''$2b$12$abcdefgh''),
      (''created_at'', JString ''2023-11-14T22:13:20.000Z''), (''version'', JNumber 1)]"

definition sso_user_json :: jobject where
  "sso_user_json =
     [(''name'', JString ''@dave:example.org''), (''password_hash'', JNull), (''admin'', JNumber 0)]"

text \<open>
  A user whose password hash holds a double quote, and a record with two of the fields
  that the pattern names.
\<close>

definition quoted_hash_user :: SUser where
  "quoted_hash_user =
     \<lparr>name = ''@eve:example.org'', password_hash = Some (''$2b$12$ab'' @ [CHR 0x22] @ ''cdefgh''),
      admin = 0, is_guest = 0, deactivated = 0, creation_ts = 1700000200, appservice_id = None\<rparr>"

definition two_secrets_json :: jobject where
  "two_secrets_json = [(''token'', JString ''first''), (''access_token'', JString ''second'')]"

definition real_run :: MigrationOptions where
  "real_run = \<lparr>upstreamProviderMapping = [], dryRun = False\<rparr>"

definition dry_run :: MigrationOptions where
  "dry_run = \<lparr>upstreamProviderMapping = [], dryRun = True\<rparr>"

section \<open>Properties of the username derivation\<close>







section \<open>Results, invariants and the log\<close>

lemma bind_simps [simp]:
  "bind (Ok x w) f = f x w"
  "bind (Thrown e w) f = Thrown e w"
  "bind (Exited c w) f = Exited c w"
  by (simp_all add: bind_def)


lemma res_sat_simps [simp]:
  "res_sat P T E (Ok x w) = P x w"
  "res_sat P T E (Thrown e w) = T e w"
  "res_sat P T E (Exited c w) = E c w"
  by (simp_all add: res_sat_def)




lemma res_sat_world_of: "res_sat (\<lambda>_. I) (\<lambda>_. I) (\<lambda>_. I) r = I (world_of r)"
  by (cases r) simp_all

lemma say_fields [simp]:
  "mas_rows (say l m w) = mas_rows w"
  "mas_trx (say l m w) = mas_trx w"
  "mas_rejects (say l m w) = mas_rejects w"
  "upstream_oauth_providers (say l m w) = upstream_oauth_providers w"
  "synapse_queries (say l m w) = synapse_queries w"
  "synapse_rejects (say l m w) = synapse_rejects w"
  "logged (say l m w) = logged w @ [(l, m)]"
  "warnings (say l m w) = warnings w"
  "fatals (say l m w) = fatals w"
  "random (say l m w) = random w"
  "drawn (say l m w) = drawn w"
  by (simp_all add: say_def)

lemma warn_fields [simp]:
  "mas_rows (warn m w) = mas_rows w"
  "mas_trx (warn m w) = mas_trx w"
  "mas_rejects (warn m w) = mas_rejects w"
  "upstream_oauth_providers (warn m w) = upstream_oauth_providers w"
  "synapse_queries (warn m w) = synapse_queries w"
  "synapse_rejects (warn m w) = synapse_rejects w"
  "logged (warn m w) = logged w"
  "warnings (warn m w) = warnings w @ [m]"
  "fatals (warn m w) = fatals w"
  "random (warn m w) = random w"
  "drawn (warn m w) = drawn w"
  by (simp_all add: warn_def)

lemma issue_fields [simp]:
  "mas_rows (issue q w) = mas_rows w"
  "mas_trx (issue q w) = mas_trx w"
  "mas_rejects (issue q w) = mas_rejects w"
  "upstream_oauth_providers (issue q w) = upstream_oauth_providers w"
  "synapse_queries (issue q w) = synapse_queries w @ [q]"
  "synapse_rejects (issue q w) = synapse_rejects w"
  "logged (issue q w) = logged w"
  "warnings (issue q w) = warnings w"
  "fatals (issue q w) = fatals w"
  "random (issue q w) = random w"
  "drawn (issue q w) = drawn w"
  by (simp_all add: issue_def)

lemma makeUuid_fields [simp]:
  "mas_rows (snd (makeUuid t w)) = mas_rows w"
  "mas_trx (snd (makeUuid t w)) = mas_trx w"
  "mas_rejects (snd (makeUuid t w)) = mas_rejects w"
  "upstream_oauth_providers (snd (makeUuid t w)) = upstream_oauth_providers w"
  "synapse_queries (snd (makeUuid t w)) = synapse_queries w"
  "synapse_rejects (snd (makeUuid t w)) = synapse_rejects w"
  "logged (snd (makeUuid t w)) = logged w"
  "warnings (snd (makeUuid t w)) = warnings w"
  "fatals (snd (makeUuid t w)) = fatals w"
  "random (snd (makeUuid t w)) = random w"
  by (simp_all add: makeUuid_def)


lemma foldl_say_other:
  "mas_rows (foldl (\<lambda>a m. say l m a) w ms) = mas_rows w"
  "mas_trx (foldl (\<lambda>a m. say l m a) w ms) = mas_trx w"
  "mas_rejects (foldl (\<lambda>a m. say l m a) w ms) = mas_rejects w"
  "upstream_oauth_providers (foldl (\<lambda>a m. say l m a) w ms) = upstream_oauth_providers w"
  "synapse_queries (foldl (\<lambda>a m. say l m a) w ms) = synapse_queries w"
  "synapse_rejects (foldl (\<lambda>a m. say l m a) w ms) = synapse_rejects w"
  "warnings (foldl (\<lambda>a m. say l m a) w ms) = warnings w"
  "fatals (foldl (\<lambda>a m. say l m a) w ms) = fatals w"
  "random (foldl (\<lambda>a m. say l m a) w ms) = random w"
  "drawn (foldl (\<lambda>a m. say l m a) w ms) = drawn w"
  by (induction ms arbitrary: w; simp)+

lemma bind_world:
  assumes "I (world_of m)" and "\<And>x w. I w \<Longrightarrow> I (world_of (f x w))"
  shows "I (world_of (bind m f))"
  using assms by (cases m) simp_all

lemma forEach_world:
  assumes step: "\<And>x s w. I w \<Longrightarrow> I (world_of (body x s w))"
  shows "I w \<Longrightarrow> I (world_of (forEach body xs s w))"
proof (induction xs arbitrary: s w)
  case Nil
  then show ?case by simp
next
  case (Cons x xs)
  from step [OF Cons.prems, of x s] Cons.IH show ?case
    by (cases "body x s w") simp_all
qed

lemma stableD:
  assumes "stable I" and "I w"
  shows "I (say l m w)" and "I (warn m w)" and "I (issue q w)"
    and "I (snd (makeUuid t w))" and "I (w\<lparr>fatals := Suc (fatals w)\<rparr>)"
  using assms unfolding stable_def by blast+

lemma stable_replay: "stable I \<Longrightarrow> I w \<Longrightarrow> I (foldl (\<lambda>a m. say l m a) w ms)"
  by (induction ms arbitrary: w) (simp_all add: stableD)

lemma stable_fatal: "stable I \<Longrightarrow> I w \<Longrightarrow> I (world_of (fatal args m w))"
  by (simp add: fatal_def Let_def stableD stable_replay)

lemma stable_password: "stable I \<Longrightarrow> I w \<Longrightarrow> I (world_of (password user mu s w))"
  by (simp add: password_def case_prod_unfold stableD split: option.splits)

lemma stable_threePidStep: "stable I \<Longrightarrow> I w \<Longrightarrow> I (world_of (threePidStep user mu tp s w))"
  by (simp add: threePidStep_def case_prod_unfold stableD)

lemma stable_externalIdStep:
  "stable I \<Longrightarrow> I w \<Longrightarrow> I (world_of (externalIdStep args ups user mu e s w))"
  by (cases "ups (auth_provider e)")
     (simp_all add: externalIdStep_def externalIdTry_def case_prod_unfold stableD bind_world [where I=I] stable_fatal)

lemma stable_accessTokenStep:
  "stable I \<Longrightarrow> I w \<Longrightarrow> I (world_of (accessTokenStep synapse user mu t s w))"
  by (simp add: accessTokenStep_def Let_def case_prod_unfold stableD split: option.splits)

lemma synapseSelect_Ok:
  "synapseSelect q w = Ok x w' \<Longrightarrow> w' = issue q w \<and> \<not> synapse_rejects w q"
  by (simp add: synapseSelect_def split: if_splits)

lemma synapseSelect_answered:
  "\<not> synapse_rejects w q \<Longrightarrow> synapseSelect q w = Ok () (issue q w)"
  by (simp add: synapseSelect_def)

lemma stable_synapseSelect: "stable I \<Longrightarrow> I w \<Longrightarrow> I (world_of (synapseSelect q w))"
  by (simp add: synapseSelect_def stableD)

lemma accessTokenBody_Ok:
  "accessTokenBody synapse user mu t s w = Ok s' w' \<Longrightarrow>
   accessTokenStep synapse user mu t s w = Ok s' w'"
  by (simp add: accessTokenBody_def split: option.splits if_splits)


lemma stable_accessTokenBody:
  "stable I \<Longrightarrow> I w \<Longrightarrow> I (world_of (accessTokenBody synapse user mu t s w))"
  by (simp add: accessTokenBody_def stable_accessTokenStep stableD split: option.splits)

lemma accessTokenBody_loop_Ok:
  "forEach (accessTokenBody synapse user mu) ts s w = Ok s' w' \<Longrightarrow>
   forEach (accessTokenStep synapse user mu) ts s w = Ok s' w'"
proof (induction ts arbitrary: s w)
  case Nil
  then show ?case by simp
next
  case (Cons t ts)
  from Cons.prems obtain s1 w1 where b: "accessTokenBody synapse user mu t s w = Ok s1 w1"
    and r: "forEach (accessTokenBody synapse user mu) ts s1 w1 = Ok s' w'"
    by (cases "accessTokenBody synapse user mu t s w") simp_all
  from accessTokenBody_Ok [OF b] Cons.IH [OF r] show ?case by simp
qed

lemma stable_guestCheck: "stable I \<Longrightarrow> I w \<Longrightarrow> I (world_of (guestCheck args user w))"
  by (simp add: guestCheck_def stable_fatal)

lemma stable_userRows:
  assumes "stable I" and "I w"
  shows "I (world_of (userRows args synapse ups user w))"
  unfolding userRows_def case_prod_unfold
  by (intro bind_world [where I=I] forEach_world [where I=I])
     (simp_all add: assms stableD stable_password stable_threePidStep stable_synapseSelect
        stable_externalIdStep stable_accessTokenBody forEach_world [where I=I]
        bind_world [where I=I])

lemma stable_deriveRows:
  assumes "stable I" and "I w"
  shows "I (world_of (deriveRows args synapse ups user w))"
  unfolding deriveRows_def
  by (intro bind_world [where I=I])
     (simp_all add: assms stableD stable_guestCheck stable_userRows)

lemma stable_rows: "stable (\<lambda>w. mas_rows w = R)"
  by (simp add: stable_def)

lemma stable_trx: "stable (\<lambda>w. mas_trx w = R)"
  by (simp add: stable_def)

lemma stable_fatals: "stable (\<lambda>w. F \<le> fatals w)"
  by (simp add: stable_def)

lemma stable_disposition_dry:
  "stable I \<Longrightarrow> dryRun args \<Longrightarrow> I w \<Longrightarrow> I (world_of (disposition args user s w))"
  by (simp add: disposition_def stableD)

lemma stable_migrateUser_dry:
  "stable I \<Longrightarrow> dryRun args \<Longrightarrow> I w \<Longrightarrow> I (world_of (migrateUser args synapse ups user w))"
  unfolding migrateUser_def
  by (intro bind_world [where I=I]) (simp_all add: stable_deriveRows stable_disposition_dry)


lemma stable_mappingStep:
  "stable I \<Longrightarrow> I w \<Longrightarrow> I (world_of (upstreamProviderMappingStep mapping ups w))"
  by (simp add: upstreamProviderMappingStep_def stableD split: option.splits sum.splits prod.splits)


lemma fatal_real: "\<not> dryRun args \<Longrightarrow> \<exists>w'. fatal args m w = Exited 1 w' \<and> mas_rows w' = mas_rows w
   \<and> mas_trx w' = mas_trx w \<and> synapse_queries w' = synapse_queries w"
  by (simp add: fatal_def Let_def foldl_say_other)

lemma fatal_dry: "dryRun args \<Longrightarrow> \<exists>w'. fatal args m w = Ok () w' \<and> fatals w' = Suc (fatals w)"
  by (simp add: fatal_def Let_def foldl_say_other)

section \<open>Guests and fatals\<close>

lemma guest_real:
  assumes "is_guest user = 1" and "\<not> dryRun args"
  shows "\<exists>w'. migrateUser args synapse ups user w = Exited 1 w' \<and> mas_rows w' = mas_rows w
    \<and> mas_trx w' = mas_trx w"
proof -
  obtain w' where "fatal args (''Migration of guest users is not supported: '' @ name user)
      (say INFO (''Processing user '' @ name user @ '' as '' @ localpart (name user)) w) = Exited 1 w'"
    and "mas_rows w' = mas_rows w" and "mas_trx w' = mas_trx w"
    using fatal_real [OF assms(2)] by (metis say_fields(1) say_fields(2))
  then show ?thesis
    using assms(1) by (simp add: migrateUser_def deriveRows_def guestCheck_def)
qed

lemma guest_dry_fatals:
  assumes "is_guest user = 1" and "dryRun args"
  shows "fatals w < fatals (world_of (migrateUser args synapse ups user w))"
proof -
  let ?w0 = "say INFO (''Processing user '' @ name user @ '' as '' @ localpart (name user)) w"
  obtain w1 where f: "fatal args (''Migration of guest users is not supported: '' @ name user) ?w0 = Ok () w1"
    and w1: "fatals w1 = Suc (fatals ?w0)"
    using fatal_dry [OF assms(2)] by blast
  have st: "stable (\<lambda>w'. Suc (fatals w) \<le> fatals w')"
    by (rule stable_fatals)
  have "Suc (fatals w) \<le> fatals (world_of (bind (userRows args synapse ups user w1) (disposition args user)))"
    by (rule bind_world [where I = "\<lambda>w'. Suc (fatals w) \<le> fatals w'"])
       (simp_all add: stable_userRows [OF st] stable_disposition_dry [OF st assms(2)] w1)
  then show ?thesis
    using assms(1) f by (simp add: migrateUser_def deriveRows_def guestCheck_def)
qed

lemma insert_fatals: "fatals (world_of (knex_insert h r w)) = fatals w"
  by (simp add: knex_insert_def split: handle.splits option.splits)

lemma commitUser_fatals: "F \<le> fatals w \<Longrightarrow> F \<le> fatals (world_of (commitUser user ex w))"
proof -
  assume F: "F \<le> fatals w"
  let ?w1 = "knex_transaction (say INFO (''Running '' @ string_of_nat (length ex) @ '' updates for user '' @ name user) w)"
  have "F \<le> fatals ?w1" using F by (simp add: knex_transaction_def)
  then have "F \<le> fatals (world_of (forEach execution ex () ?w1))"
    by (rule forEach_world [where I = "\<lambda>w. F \<le> fatals w", rotated])
       (simp add: execution_def insert_fatals)
  then show ?thesis
    by (cases "forEach execution ex () ?w1")
       (simp_all add: commitUser_def trx_commit_def trx_rollback_def split: option.splits)
qed

lemma disposition_fatals: "F \<le> fatals w \<Longrightarrow> F \<le> fatals (world_of (disposition args user s w))"
  by (simp add: disposition_def commitUser_fatals stable_fatal [OF stable_fatals])

lemma migrateUser_fatals:
  "F \<le> fatals w \<Longrightarrow> F \<le> fatals (world_of (migrateUser args synapse ups user w))"
  unfolding migrateUser_def
  by (rule bind_world [where I = "\<lambda>w. F \<le> fatals w"])
     (simp_all add: stable_deriveRows [OF stable_fatals] disposition_fatals)

lemma userStep_Ok:
  assumes "userStep args synapse ups u k w = Ok k' w'"
  shows "migrateUser args synapse ups u w = Ok () w'"
  using assms by (cases "migrateUser args synapse ups u w") (simp_all add: userStep_def)

lemma userStep_fatals:
  assumes "userStep args synapse ups u k w = Ok k' w'"
  shows "fatals w \<le> fatals w' \<and> (is_guest u = 1 \<longrightarrow> fatals w < fatals w')"
proof -
  have m: "migrateUser args synapse ups u w = Ok () w'"
    using assms by (rule userStep_Ok)
  have "fatals w \<le> fatals (world_of (migrateUser args synapse ups u w))"
    by (rule migrateUser_fatals) simp
  then have 1: "fatals w \<le> fatals w'" by (simp add: m)
  have 2: "fatals w < fatals w'" if g: "is_guest u = 1"
  proof (cases "dryRun args")
    case True
    from guest_dry_fatals [OF g True, of w synapse ups] show ?thesis by (simp add: m)
  next
    case False
    from guest_real [OF g False, of synapse ups w] show ?thesis by (simp add: m)
  qed
  from 1 2 show ?thesis by blast
qed

lemma users_loop_fatals:
  "forEach (userStep args synapse ups) us k w = Ok k' w' \<Longrightarrow>
   fatals w \<le> fatals w' \<and> ((\<exists>u\<in>set us. is_guest u = 1) \<longrightarrow> fatals w < fatals w')"
proof (induction us arbitrary: k w)
  case Nil
  then show ?case by simp
next
  case (Cons u us)
  from Cons.prems obtain k1 w1 where s: "userStep args synapse ups u k w = Ok k1 w1"
    and r: "forEach (userStep args synapse ups) us k1 w1 = Ok k' w'"
    by (cases "userStep args synapse ups u k w") simp_all
  from userStep_fatals [OF s] Cons.IH [OF r] show ?case by auto
qed

lemma summary_fatal: "0 < fatals w \<Longrightarrow> \<not> is_Ok (summary args k w)"
  by (simp add: summary_def Let_def foldl_say_other)




lemma guest_run:
  assumes "u \<in> set (users synapse)" and "appservice_id u = None" and "is_guest u = 1"
  shows "\<not> is_Ok (migrate args sqlite3 synapse w)"
proof -
  let ?w0 = "w\<lparr>warnings := [], fatals := 0\<rparr>"
  let ?r1 = "forEach upstreamProviderMappingStep (upstreamProviderMapping args) Map.empty ?w0"
  let ?us = "filter (\<lambda>u. appservice_id u = None) (users synapse)"
  have g: "\<exists>u\<in>set ?us. is_guest u = 1" using assms by auto
  show ?thesis
  proof (cases ?r1)
    case (Ok ups w1)
    let ?r2 = "if 0 < existingMasUsers w1
           then fatal args (''Found '' @ string_of_nat (existingMasUsers w1)
                  @ '' existing users in MAS. Refusing to continue. Please clean MAS and try again.'') w1
           else Ok () w1"
    show ?thesis
    proof (cases ?r2)
      case r2: (Ok x w2)
      show ?thesis
      proof (cases "synapse_rejects w2 SelectUsers")
        case True
        then show ?thesis using Ok r2 by (simp add: migrate_def synapseSelect_def)
      next
        case False
        let ?r3 = "forEach (userStep args synapse ups) ?us 0 (issue SelectUsers w2)"
        have m: "migrate args sqlite3 synapse w = bind ?r3 (summary args)"
          using Ok r2 False by (simp add: migrate_def synapseSelect_def)
        show ?thesis
        proof (cases ?r3)
          case r3: (Ok k w4)
          from users_loop_fatals [OF r3] g have "0 < fatals w4" by auto
          then have "\<not> is_Ok (summary args k w4)" by (rule summary_fatal)
          then show ?thesis using m r3 by simp
        qed (simp_all add: m)
      qed
    qed (simp_all add: migrate_def Ok)
  qed (simp_all add: migrate_def)
qed


section \<open>The rows derived for one user\<close>

lemmas obs_defs = users_of_def emails_of_def links_of_def sessions_of_def
  compat_access_tokens_of_def compat_refresh_tokens_of_def

lemma obs_append [simp]:
  "users_of (a @ b) = users_of a @ users_of b"
  "emails_of (a @ b) = emails_of a @ emails_of b"
  "links_of (a @ b) = links_of a @ links_of b"
  "sessions_of (a @ b) = sessions_of a @ sessions_of b"
  "compat_access_tokens_of (a @ b) = compat_access_tokens_of a @ compat_access_tokens_of b"
  "compat_refresh_tokens_of (a @ b) = compat_refresh_tokens_of a @ compat_refresh_tokens_of b"
  by (simp_all add: obs_defs)

lemma obs_Nil [simp]:
  "users_of [] = []" "emails_of [] = []" "links_of [] = []" "sessions_of [] = []"
  "compat_access_tokens_of [] = []" "compat_refresh_tokens_of [] = []"
  by (simp_all add: obs_defs)

lemma obs_Cons [simp]:
  "users_of (r # rs) = (case r of Users u \<Rightarrow> [u] | _ \<Rightarrow> []) @ users_of rs"
  "emails_of (r # rs) = (case r of UserEmails e \<Rightarrow> [e] | _ \<Rightarrow> []) @ emails_of rs"
  "links_of (r # rs) = (case r of UpstreamOauthLinks l \<Rightarrow> [l] | _ \<Rightarrow> []) @ links_of rs"
  "sessions_of (r # rs) = (case r of CompatSessions c \<Rightarrow> [c] | _ \<Rightarrow> []) @ sessions_of rs"
  "compat_access_tokens_of (r # rs)
     = (case r of CompatAccessTokens c \<Rightarrow> [c] | _ \<Rightarrow> []) @ compat_access_tokens_of rs"
  "compat_refresh_tokens_of (r # rs)
     = (case r of CompatRefreshTokens c \<Rightarrow> [c] | _ \<Rightarrow> []) @ compat_refresh_tokens_of rs"
  by (simp_all add: obs_defs)

lemma passwords_only:
  "list_all is_UserPasswords rs \<Longrightarrow>
   users_of rs = [] \<and> emails_of rs = [] \<and> links_of rs = [] \<and> sessions_of rs = []
   \<and> compat_access_tokens_of rs = [] \<and> compat_refresh_tokens_of rs = []
   \<and> list_all (\<lambda>r. \<not> is_compat r) rs"
proof (induction rs)
  case Nil
  show ?case by simp
next
  case (Cons r rs)
  then show ?case by (cases r) simp_all
qed

lemma emails_only:
  "list_all is_UserEmails rs \<Longrightarrow>
   users_of rs = [] \<and> links_of rs = [] \<and> sessions_of rs = []
   \<and> compat_access_tokens_of rs = [] \<and> compat_refresh_tokens_of rs = []
   \<and> list_all (\<lambda>r. \<not> is_compat r) rs"
proof (induction rs)
  case Nil
  show ?case by simp
next
  case (Cons r rs)
  then show ?case by (cases r) simp_all
qed

lemma links_only:
  "list_all is_UpstreamOauthLinks rs \<Longrightarrow>
   users_of rs = [] \<and> emails_of rs = [] \<and> sessions_of rs = []
   \<and> compat_access_tokens_of rs = [] \<and> compat_refresh_tokens_of rs = []
   \<and> list_all (\<lambda>r. \<not> is_compat r) rs"
proof (induction rs)
  case Nil
  show ?case by simp
next
  case (Cons r rs)
  then show ?case by (cases r) simp_all
qed


lemma password_Ok:
  "\<exists>add w'. password user mu s w = Ok (fst s, snd s @ add) w' \<and> list_all is_UserPasswords add
     \<and> warnings w' = warnings w \<and> logged w' = logged w \<and> fatals w' = fatals w"
proof (cases "truthy_string (password_hash user)")
  case False
  then have "password user mu s w = Ok s w"
    by (simp add: password_def truthy_string_def split: option.splits)
  then show ?thesis
    by (intro exI [of _ "[]"] exI [of _ w]) simp
next
  case True
  then obtain h where h: "password_hash user = Some h" "h \<noteq> []"
    by (auto simp: truthy_string_def split: option.splits)
  let ?p = "masUserPassword user mu h (fst (makeUuid (userCreatedAt user) w))"
  have "password user mu s w = Ok (fst s, snd s @ [UserPasswords ?p]) (snd (makeUuid (userCreatedAt user) w))"
    using h by (simp add: password_def case_prod_unfold)
  then show ?thesis
    by (intro exI [of _ "[UserPasswords ?p]"] exI [of _ "snd (makeUuid (userCreatedAt user) w)"]) simp
qed

lemma threePids_loop:
  "\<exists>add w'. forEach (threePidStep user mu) tps s w
       = Ok (fst s + length (filter (\<lambda>t. medium t \<noteq> ''email'') tps), snd s @ add) w'
     \<and> list_all is_UserEmails add
     \<and> map (\<lambda>e. (email e, em_created_at e, confirmed_at e)) (emails_of add)
        = map (\<lambda>t. (toLowerCase (address t), added_at t,
                     if truthy_int (validated_at t) then validated_at t else None))
            (filter (\<lambda>t. medium t = ''email'') tps)
     \<and> warnings w' = warnings w
          @ map (\<lambda>t. ''Skipping non-email 3pid '' @ medium t @ '' for user '' @ name user)
              (filter (\<lambda>t. medium t \<noteq> ''email'') tps)
     \<and> logged w' = logged w \<and> fatals w' = fatals w"
proof (induction tps arbitrary: s w)
  case Nil
  show ?case by (intro exI [of _ "[]"] exI [of _ w]) simp
next
  case (Cons t tps)
  show ?case
  proof (cases "medium t = ''email''")
    case True
    let ?e = "masUserEmail mu t (fst (makeUuid (added_at t) w))"
    let ?s1 = "(fst s, snd s @ [UserEmails ?e])"
    let ?w1 = "snd (makeUuid (added_at t) w)"
    have step: "threePidStep user mu t s w = Ok ?s1 ?w1"
      using True by (simp add: threePidStep_def case_prod_unfold)
    from Cons.IH [of ?s1 ?w1] obtain add w' where
      "forEach (threePidStep user mu) tps ?s1 ?w1
         = Ok (fst ?s1 + length (filter (\<lambda>t. medium t \<noteq> ''email'') tps), snd ?s1 @ add) w'"
      and "list_all is_UserEmails add"
      and "map (\<lambda>e. (email e, em_created_at e, confirmed_at e)) (emails_of add)
        = map (\<lambda>t. (toLowerCase (address t), added_at t,
                     if truthy_int (validated_at t) then validated_at t else None))
            (filter (\<lambda>t. medium t = ''email'') tps)"
      and "warnings w' = warnings ?w1
          @ map (\<lambda>t. ''Skipping non-email 3pid '' @ medium t @ '' for user '' @ name user)
              (filter (\<lambda>t. medium t \<noteq> ''email'') tps)"
      and "logged w' = logged ?w1" and "fatals w' = fatals ?w1"
      by blast
    then show ?thesis
      using True step
      by (intro exI [of _ "UserEmails ?e # add"] exI [of _ w']) (simp add: masUserEmail_def)
  next
    case False
    let ?m = "''Skipping non-email 3pid '' @ medium t @ '' for user '' @ name user"
    let ?s1 = "(fst s + 1, snd s)"
    let ?w1 = "warn ?m w"
    have step: "threePidStep user mu t s w = Ok ?s1 ?w1"
      using False by (simp add: threePidStep_def)
    from Cons.IH [of ?s1 ?w1] obtain add w' where
      "forEach (threePidStep user mu) tps ?s1 ?w1
         = Ok (fst ?s1 + length (filter (\<lambda>t. medium t \<noteq> ''email'') tps), snd ?s1 @ add) w'"
      and "list_all is_UserEmails add"
      and "map (\<lambda>e. (email e, em_created_at e, confirmed_at e)) (emails_of add)
        = map (\<lambda>t. (toLowerCase (address t), added_at t,
                     if truthy_int (validated_at t) then validated_at t else None))
            (filter (\<lambda>t. medium t = ''email'') tps)"
      and "warnings w' = warnings ?w1
          @ map (\<lambda>t. ''Skipping non-email 3pid '' @ medium t @ '' for user '' @ name user)
              (filter (\<lambda>t. medium t \<noteq> ''email'') tps)"
      and "logged w' = logged ?w1" and "fatals w' = fatals ?w1"
      by blast
    then show ?thesis
      using False step
      by (intro exI [of _ add] exI [of _ w']) simp
  qed
qed

lemma fatal_keeps:
  "warnings (world_of (fatal args m w)) = warnings w"
  "mas_rows (world_of (fatal args m w)) = mas_rows w"
  by (simp_all add: fatal_def Let_def foldl_say_other)

lemma externalIds_loop:
  "forEach (externalIdStep args ups user mu) es s w = Ok s' w' \<Longrightarrow>
   \<exists>add. s' = (fst s, snd s @ add) \<and> list_all is_UpstreamOauthLinks add
     \<and> map (\<lambda>l. (ln_upstream_oauth_provider_id l, subject l, ln_created_at l)) (links_of add)
        = concat (map (\<lambda>e. case ups (auth_provider e) of
                              None \<Rightarrow> []
                            | Some p \<Rightarrow> [(upstream_oauth_provider_id p, external_id e, created_at mu)]) es)
     \<and> warnings w' = warnings w"
proof (induction es arbitrary: s w)
  case Nil
  then show ?case by (intro exI [of _ "[]"]) simp
next
  case (Cons e es)
  show ?case
  proof (cases "ups (auth_provider e)")
    case (Some p)
    let ?l = "masUpstreamOauthLink mu p e (fst (makeUuid (userCreatedAt user) w))"
    let ?s1 = "(fst s, snd s @ [UpstreamOauthLinks ?l])"
    let ?w1 = "snd (makeUuid (userCreatedAt user) w)"
    have step: "externalIdStep args ups user mu e s w = Ok ?s1 ?w1"
      using Some by (simp add: externalIdStep_def externalIdTry_def case_prod_unfold)
    with Cons.prems have "forEach (externalIdStep args ups user mu) es ?s1 ?w1 = Ok s' w'"
      by simp
    from Cons.IH [OF this] obtain add where
      "s' = (fst ?s1, snd ?s1 @ add)" "list_all is_UpstreamOauthLinks add"
      "map (\<lambda>l. (ln_upstream_oauth_provider_id l, subject l, ln_created_at l)) (links_of add)
        = concat (map (\<lambda>e. case ups (auth_provider e) of
                              None \<Rightarrow> []
                            | Some p \<Rightarrow> [(upstream_oauth_provider_id p, external_id e, created_at mu)]) es)"
      "warnings w' = warnings ?w1"
      by blast
    then show ?thesis
      using Some
      by (intro exI [of _ "UpstreamOauthLinks ?l # add"]) (simp add: masUpstreamOauthLink_def)
  next
    case None
    let ?m = "''Failed to import external id '' @ external_id e @ '' with ''
                  @ auth_provider e @ '' for user '' @ name user @ '': ''
                  @ exn_string (Error (''Unknown upstream provider '' @ auth_provider e))"
    have step: "externalIdStep args ups user mu e s w = bind (fatal args ?m w) (\<lambda>_ w''. Ok s w'')"
      using None by (simp add: externalIdStep_def externalIdTry_def)
    from Cons.prems step obtain w1 where f: "fatal args ?m w = Ok () w1"
      and rest: "forEach (externalIdStep args ups user mu) es s w1 = Ok s' w'"
      by (cases "fatal args ?m w") simp_all
    from fatal_keeps(1) [of args ?m w] f have w1: "warnings w1 = warnings w" by simp
    from Cons.IH [OF rest] obtain add where
      "s' = (fst s, snd s @ add)" "list_all is_UpstreamOauthLinks add"
      "map (\<lambda>l. (ln_upstream_oauth_provider_id l, subject l, ln_created_at l)) (links_of add)
        = concat (map (\<lambda>e. case ups (auth_provider e) of
                              None \<Rightarrow> []
                            | Some p \<Rightarrow> [(upstream_oauth_provider_id p, external_id e, created_at mu)]) es)"
      "warnings w' = warnings w1"
      by blast
    then show ?thesis
      using None w1 by (intro exI [of _ add]) simp
  qed
qed

lemma accessTokenStep_Ok:
  "\<exists>add w'. accessTokenStep synapse user mu t s w
       = Ok (fst s + (if refresh_token_missing synapse t then 1 else 0),
             snd s @ CompatSessions (masCompatSession user mu t (fst (makeUuid (tokenCreatedAt mu t) w)))
                   # add) w'
     \<and> list_all is_compat add \<and> sessions_of add = []
     \<and> map (\<lambda>c. (access_token c, ca_created_at c)) (compat_access_tokens_of add)
        = [(token t, tokenCreatedAt mu t)]
     \<and> warnings w' = warnings w
          @ (if refresh_token_missing synapse t
             then [''Unable to locate refresh token ''
                     @ (case refresh_token_id t of Some r \<Rightarrow> string_of_int r | None \<Rightarrow> [])
                     @ '' for user '' @ name user]
             else [])
     \<and> logged w' = logged w \<and> fatals w' = fatals w"
proof -
  let ?tc = "tokenCreatedAt mu t"
  let ?sid = "fst (makeUuid ?tc w)"
  let ?w1 = "snd (makeUuid ?tc w)"
  let ?aid = "fst (makeUuid ?tc ?w1)"
  let ?w2 = "snd (makeUuid ?tc ?w1)"
  let ?a = "CompatAccessTokens (masCompatAccessToken mu t ?sid ?aid)"
  show ?thesis
  proof (cases "refresh_token_id t")
    case None
    then show ?thesis
      by (intro exI [of _ "[?a]"] exI [of _ ?w2])
         (simp add: accessTokenStep_def case_prod_unfold Let_def refresh_token_missing_def
            masCompatAccessToken_def)
  next
    case (Some r)
    show ?thesis
    proof (cases "r = 0")
      case True
      with Some show ?thesis
        by (intro exI [of _ "[?a]"] exI [of _ ?w2])
           (simp add: accessTokenStep_def case_prod_unfold Let_def refresh_token_missing_def
              masCompatAccessToken_def)
    next
      case False
      show ?thesis
      proof (cases "find (\<lambda>x. rt_id x = r) (refresh_tokens synapse)")
        case None
        with Some False show ?thesis
          by (intro exI [of _ "[?a]"]
                exI [of _ "warn (''Unable to locate refresh token '' @ string_of_int r
                                  @ '' for user '' @ name user) (issue (SelectRefreshToken r) ?w2)"])
             (simp add: accessTokenStep_def case_prod_unfold Let_def refresh_token_missing_def
                masCompatAccessToken_def)
      next
        case found: (Some rt)
        let ?w3 = "issue (SelectRefreshToken r) ?w2"
        let ?rid = "fst (makeUuid ?tc ?w3)"
        from Some False found show ?thesis
          by (intro exI [of _ "[?a, CompatRefreshTokens (masCompatRefreshToken mu t rt ?sid ?aid ?rid)]"]
                exI [of _ "snd (makeUuid ?tc ?w3)"])
             (simp add: accessTokenStep_def case_prod_unfold Let_def refresh_token_missing_def
                masCompatAccessToken_def)
      qed
    qed
  qed
qed

lemma accessTokens_loop:
  "\<exists>add w'. forEach (accessTokenStep synapse user mu) ts s w
       = Ok (fst s + length (filter (refresh_token_missing synapse) ts), snd s @ add) w'
     \<and> list_all is_compat add
     \<and> map (\<lambda>c. (cs_device_id c, cs_created_at c, is_synapse_admin c)) (sessions_of add)
        = map (\<lambda>t. (device_id t, tokenCreatedAt mu t, admin user = 1)) ts
     \<and> map (\<lambda>c. (access_token c, ca_created_at c)) (compat_access_tokens_of add)
        = map (\<lambda>t. (token t, tokenCreatedAt mu t)) ts
     \<and> warnings w' = warnings w
          @ map (\<lambda>t. ''Unable to locate refresh token ''
                     @ (case refresh_token_id t of Some r \<Rightarrow> string_of_int r | None \<Rightarrow> [])
                     @ '' for user '' @ name user)
              (filter (refresh_token_missing synapse) ts)
     \<and> logged w' = logged w \<and> fatals w' = fatals w"
proof (induction ts arbitrary: s w)
  case Nil
  show ?case by (intro exI [of _ "[]"] exI [of _ w]) simp
next
  case (Cons t ts)
  let ?c = "CompatSessions (masCompatSession user mu t (fst (makeUuid (tokenCreatedAt mu t) w)))"
  from accessTokenStep_Ok [of synapse user mu t s w] obtain a1 w1 where
    step: "accessTokenStep synapse user mu t s w
       = Ok (fst s + (if refresh_token_missing synapse t then 1 else 0), snd s @ ?c # a1) w1
     \<and> list_all is_compat a1 \<and> sessions_of a1 = []
     \<and> map (\<lambda>c. (access_token c, ca_created_at c)) (compat_access_tokens_of a1)
        = [(token t, tokenCreatedAt mu t)]
     \<and> warnings w1 = warnings w
          @ (if refresh_token_missing synapse t
             then [''Unable to locate refresh token ''
                     @ (case refresh_token_id t of Some r \<Rightarrow> string_of_int r | None \<Rightarrow> [])
                     @ '' for user '' @ name user]
             else [])
     \<and> logged w1 = logged w \<and> fatals w1 = fatals w"
    by (elim exE)
  let ?s1 = "(fst s + (if refresh_token_missing synapse t then 1 else 0), snd s @ ?c # a1)"
  from Cons.IH [of ?s1 w1] obtain a2 w2 where
    rest: "forEach (accessTokenStep synapse user mu) ts ?s1 w1
       = Ok (fst ?s1 + length (filter (refresh_token_missing synapse) ts), snd ?s1 @ a2) w2
     \<and> list_all is_compat a2
     \<and> map (\<lambda>c. (cs_device_id c, cs_created_at c, is_synapse_admin c)) (sessions_of a2)
        = map (\<lambda>t. (device_id t, tokenCreatedAt mu t, admin user = 1)) ts
     \<and> map (\<lambda>c. (access_token c, ca_created_at c)) (compat_access_tokens_of a2)
        = map (\<lambda>t. (token t, tokenCreatedAt mu t)) ts
     \<and> warnings w2 = warnings w1
          @ map (\<lambda>t. ''Unable to locate refresh token ''
                     @ (case refresh_token_id t of Some r \<Rightarrow> string_of_int r | None \<Rightarrow> [])
                     @ '' for user '' @ name user)
              (filter (refresh_token_missing synapse) ts)
     \<and> logged w2 = logged w1 \<and> fatals w2 = fatals w1"
    by (elim exE)
  show ?case
    using step rest
    by (intro exI [of _ "?c # a1 @ a2"] exI [of _ w2]) (simp add: masCompatSession_def)
qed

lemma userRows_Ok:
  assumes ok: "userRows args synapse ups user w = Ok s' w'"
  shows "\<exists>pw em ln co.
     snd s' = Users (masUser user (fst (makeUuid (userCreatedAt user) w))) # pw @ em @ ln @ co
     \<and> list_all is_UserPasswords pw \<and> list_all is_UserEmails em
     \<and> list_all is_UpstreamOauthLinks ln \<and> list_all is_compat co
     \<and> (deactivated user = 1 \<longrightarrow> co = [])
     \<and> map (\<lambda>e. (email e, em_created_at e, confirmed_at e)) (emails_of em)
        = map (\<lambda>t. (toLowerCase (address t), added_at t,
                     if truthy_int (validated_at t) then validated_at t else None))
            (filter (\<lambda>t. medium t = ''email'')
               (filter (\<lambda>t. tp_user_id t = name user) (user_threepids synapse)))
     \<and> map (\<lambda>l. (ln_upstream_oauth_provider_id l, subject l, ln_created_at l)) (links_of ln)
        = concat (map (\<lambda>e. case ups (auth_provider e) of
                              None \<Rightarrow> []
                            | Some p \<Rightarrow> [(upstream_oauth_provider_id p, external_id e,
                                          userCreatedAt user)])
                   (filter (\<lambda>e. ei_user_id e = name user) (user_external_ids synapse)))
     \<and> map (\<lambda>c. (cs_device_id c, cs_created_at c, is_synapse_admin c)) (sessions_of co)
        = map (\<lambda>t. (device_id t,
                     tokenCreatedAt (masUser user (fst (makeUuid (userCreatedAt user) w))) t,
                     admin user = 1))
            (if deactivated user = 1 then []
             else filter (\<lambda>t. at_user_id t = name user \<and> device_id t \<noteq> None) (access_tokens synapse))
     \<and> map (\<lambda>c. (access_token c, ca_created_at c)) (compat_access_tokens_of co)
        = map (\<lambda>t. (token t,
                     tokenCreatedAt (masUser user (fst (makeUuid (userCreatedAt user) w))) t))
            (if deactivated user = 1 then []
             else filter (\<lambda>t. at_user_id t = name user \<and> device_id t \<noteq> None) (access_tokens synapse))
     \<and> fst s' = length (filter (\<lambda>t. medium t \<noteq> ''email'')
                          (filter (\<lambda>t. tp_user_id t = name user) (user_threepids synapse)))
          + length (filter (refresh_token_missing synapse)
              (if deactivated user = 1 then []
               else filter (\<lambda>t. at_user_id t = name user \<and> device_id t \<noteq> None)
                      (access_tokens synapse)))
     \<and> warnings w' = warnings w
          @ map (\<lambda>t. ''Skipping non-email 3pid '' @ medium t @ '' for user '' @ name user)
              (filter (\<lambda>t. medium t \<noteq> ''email'')
                 (filter (\<lambda>t. tp_user_id t = name user) (user_threepids synapse)))
          @ map (\<lambda>t. ''Unable to locate refresh token ''
                     @ (case refresh_token_id t of Some r \<Rightarrow> string_of_int r | None \<Rightarrow> [])
                     @ '' for user '' @ name user)
              (filter (refresh_token_missing synapse)
                 (if deactivated user = 1 then []
                  else filter (\<lambda>t. at_user_id t = name user \<and> device_id t \<noteq> None)
                         (access_tokens synapse)))"
proof -
  let ?mu = "masUser user (fst (makeUuid (userCreatedAt user) w))"
  let ?w2 = "snd (makeUuid (userCreatedAt user) w)"
  let ?tps = "filter (\<lambda>t. tp_user_id t = name user) (user_threepids synapse)"
  let ?es = "filter (\<lambda>e. ei_user_id e = name user) (user_external_ids synapse)"
  let ?ts = "filter (\<lambda>t. at_user_id t = name user \<and> device_id t \<noteq> None) (access_tokens synapse)"
  from password_Ok [of user ?mu "(0, [Users ?mu])" ?w2] obtain pw w3 where
    p: "password user ?mu (0, [Users ?mu]) ?w2 = Ok (0, [Users ?mu] @ pw) w3
        \<and> list_all is_UserPasswords pw \<and> warnings w3 = warnings ?w2"
    by auto
  let ?s1 = "(0::nat, [Users ?mu] @ pw)"
  have n1: "\<not> synapse_rejects w3 (SelectThreePids (name user))"
  proof
    assume "synapse_rejects w3 (SelectThreePids (name user))"
    with p have "\<not> is_Ok (userRows args synapse ups user w)"
      by (simp add: userRows_def case_prod_unfold synapseSelect_def)
    with ok show False by simp
  qed
  from threePids_loop [of user ?mu ?tps ?s1 "issue (SelectThreePids (name user)) w3"]
  obtain em w4 where
    t: "forEach (threePidStep user ?mu) ?tps ?s1 (issue (SelectThreePids (name user)) w3)
       = Ok (fst ?s1 + length (filter (\<lambda>t. medium t \<noteq> ''email'') ?tps), snd ?s1 @ em) w4
     \<and> list_all is_UserEmails em
     \<and> map (\<lambda>e. (email e, em_created_at e, confirmed_at e)) (emails_of em)
        = map (\<lambda>t. (toLowerCase (address t), added_at t,
                     if truthy_int (validated_at t) then validated_at t else None))
            (filter (\<lambda>t. medium t = ''email'') ?tps)
     \<and> warnings w4 = warnings (issue (SelectThreePids (name user)) w3)
          @ map (\<lambda>t. ''Skipping non-email 3pid '' @ medium t @ '' for user '' @ name user)
              (filter (\<lambda>t. medium t \<noteq> ''email'') ?tps)"
    by auto
  let ?n = "length (filter (\<lambda>t. medium t \<noteq> ''email'') ?tps)"
  let ?s2 = "(?n, [Users ?mu] @ pw @ em)"
  have n2: "\<not> synapse_rejects w4 (SelectExternalIds (name user))"
  proof
    assume "synapse_rejects w4 (SelectExternalIds (name user))"
    with p n1 t have "\<not> is_Ok (userRows args synapse ups user w)"
      by (simp add: userRows_def case_prod_unfold synapseSelect_def)
    with ok show False by simp
  qed
  let ?r3 = "forEach (externalIdStep args ups user ?mu) ?es ?s2 (issue (SelectExternalIds (name user)) w4)"
  let ?tail = "\<lambda>s3 w5.
       if deactivated user = 1
       then Ok s3 (say INFO (''Skipping access tokens import for deactivated user '' @ name user) w5)
       else bind (synapseSelect (SelectAccessTokens (name user)) w5)
              (\<lambda>_ w5'. forEach (accessTokenBody synapse user ?mu) ?ts s3 w5')"
  have unfold: "userRows args synapse ups user w = bind ?r3 ?tail"
    using p t n1 n2 by (simp add: userRows_def case_prod_unfold synapseSelect_def)
  with ok obtain s3 w5 where r3: "?r3 = Ok s3 w5" and tail: "?tail s3 w5 = Ok s' w'"
    by (cases ?r3) simp_all
  from externalIds_loop [OF r3] obtain ln where
    l: "s3 = (fst ?s2, snd ?s2 @ ln) \<and> list_all is_UpstreamOauthLinks ln
     \<and> map (\<lambda>l. (ln_upstream_oauth_provider_id l, subject l, ln_created_at l)) (links_of ln)
        = concat (map (\<lambda>e. case ups (auth_provider e) of
                              None \<Rightarrow> []
                            | Some p \<Rightarrow> [(upstream_oauth_provider_id p, external_id e, created_at ?mu)]) ?es)
     \<and> warnings w5 = warnings (issue (SelectExternalIds (name user)) w4)"
    by auto
  have cr: "\<And>uid. created_at (masUser user uid) = userCreatedAt user" by (simp add: masUser_def)
  show ?thesis
  proof (cases "deactivated user = 1")
    case True
    with tail have "s' = s3" "warnings w' = warnings w5" by auto
    then show ?thesis
      using True p t l
      by - (rule exI [of _ pw], rule exI [of _ em], rule exI [of _ ln], rule exI [of _ "[]"], clarsimp simp: cr cong: option.case_cong)
  next
    case False
    from accessTokens_loop [of synapse user ?mu ?ts s3 "issue (SelectAccessTokens (name user)) w5"]
    obtain co w6 where
      c: "forEach (accessTokenStep synapse user ?mu) ?ts s3 (issue (SelectAccessTokens (name user)) w5)
       = Ok (fst s3 + length (filter (refresh_token_missing synapse) ?ts), snd s3 @ co) w6
     \<and> list_all is_compat co
     \<and> map (\<lambda>c. (cs_device_id c, cs_created_at c, is_synapse_admin c)) (sessions_of co)
        = map (\<lambda>t. (device_id t, tokenCreatedAt ?mu t, admin user = 1)) ?ts
     \<and> map (\<lambda>c. (access_token c, ca_created_at c)) (compat_access_tokens_of co)
        = map (\<lambda>t. (token t, tokenCreatedAt ?mu t)) ?ts
     \<and> warnings w6 = warnings (issue (SelectAccessTokens (name user)) w5)
          @ map (\<lambda>t. ''Unable to locate refresh token ''
                     @ (case refresh_token_id t of Some r \<Rightarrow> string_of_int r | None \<Rightarrow> [])
                     @ '' for user '' @ name user)
              (filter (refresh_token_missing synapse) ?ts)"
      by auto
    from tail False have "forEach (accessTokenBody synapse user ?mu) ?ts s3
        (issue (SelectAccessTokens (name user)) w5) = Ok s' w'"
      by (simp add: synapseSelect_def split: if_splits)
    from accessTokenBody_loop_Ok [OF this] c
    have "s' = (fst s3 + length (filter (refresh_token_missing synapse) ?ts), snd s3 @ co)"
      "w' = w6" by simp_all
    then show ?thesis
      using False p t l c
      by - (rule exI [of _ pw], rule exI [of _ em], rule exI [of _ ln], rule exI [of _ co], clarsimp simp: cr cong: option.case_cong)
  qed
qed

lemma makeUuid_seed: "\<exists>r. fst (makeUuid t w) = Uuid_toCanonical (Ulid_generate t r)"
  by (auto simp: makeUuid_def)

lemma deriveRows_Ok:
  assumes "deriveRows args synapse ups user w = Ok s' w'"
  shows "\<exists>w1. userRows args synapse ups user w1 = Ok s' w' \<and> warnings w1 = warnings w
     \<and> mas_rows w1 = mas_rows w"
proof -
  let ?w0 = "say INFO (''Processing user '' @ name user @ '' as '' @ localpart (name user)) w"
  from assms obtain w1 where g: "guestCheck args user ?w0 = Ok () w1"
    and u: "userRows args synapse ups user w1 = Ok s' w'"
    by (cases "guestCheck args user ?w0") (simp_all add: deriveRows_def)
  have "warnings (world_of (guestCheck args user ?w0)) = warnings ?w0"
    "mas_rows (world_of (guestCheck args user ?w0)) = mas_rows ?w0"
    by (simp_all add: guestCheck_def fatal_keeps)
  with g have "warnings w1 = warnings w \<and> mas_rows w1 = mas_rows w"
    by simp
  with u show ?thesis by blast
qed

lemma executions_accepted:
  "\<forall>rows r. \<not> mas_rejects w rows r \<Longrightarrow>
   \<exists>w'. forEach execution ex () w = Ok () w' \<and> mas_rows w' = mas_rows w @ ex
     \<and> mas_trx w' = mas_trx w"
proof (induction ex arbitrary: w)
  case Nil
  show ?case by simp
next
  case (Cons r ex)
  let ?w1 = "w\<lparr>mas_rows := mas_rows w @ [r]\<rparr>"
  have step: "execution r () w = Ok () ?w1"
    using Cons.prems by (simp add: execution_def knex_insert_def)
  have "\<forall>rows r. \<not> mas_rejects ?w1 rows r" using Cons.prems by simp
  from Cons.IH [OF this] step show ?case by simp
qed

lemma commitUser_accepted:
  assumes "\<forall>rows r. \<not> mas_rejects w rows r"
  shows "\<exists>w'. commitUser user ex w = Ok () w' \<and> mas_rows w' = mas_rows w @ ex"
proof -
  let ?w1 = "knex_transaction (say INFO (''Running '' @ string_of_nat (length ex) @ '' updates for user '' @ name user) w)"
  have "\<forall>rows r. \<not> mas_rejects ?w1 rows r" using assms by (simp add: knex_transaction_def)
  from executions_accepted [OF this, of ex] obtain w2 where
    "forEach execution ex () ?w1 = Ok () w2" "mas_rows w2 = mas_rows ?w1 @ ex" "mas_trx w2 = mas_trx ?w1"
    by blast
  then show ?thesis
    by (simp add: commitUser_def trx_commit_def knex_transaction_def)
qed

lemma deactivated_rows:
  assumes d: "deactivated user = 1" and ok: "deriveRows args synapse ups user w = Ok s' w'"
  shows "(\<exists>r. users_of (snd s')
            = [masUser user (Uuid_toCanonical (Ulid_generate (creation_ts user * 1000) r))])
    \<and> map locked_at (users_of (snd s')) = [Some (creation_ts user * 1000)]
    \<and> map (\<lambda>e. (email e, em_created_at e, confirmed_at e)) (emails_of (snd s'))
        = map (\<lambda>t. (toLowerCase (address t), added_at t,
                     if truthy_int (validated_at t) then validated_at t else None))
            (filter (\<lambda>t. medium t = ''email'')
               (filter (\<lambda>t. tp_user_id t = name user) (user_threepids synapse)))
    \<and> map (\<lambda>l. (ln_upstream_oauth_provider_id l, subject l, ln_created_at l)) (links_of (snd s'))
        = concat (map (\<lambda>e. case ups (auth_provider e) of
                              None \<Rightarrow> []
                            | Some p \<Rightarrow> [(upstream_oauth_provider_id p, external_id e,
                                          creation_ts user * 1000)])
                   (filter (\<lambda>e. ei_user_id e = name user) (user_external_ids synapse)))
    \<and> list_all (\<lambda>r. \<not> is_compat r) (snd s')"
proof -
  from deriveRows_Ok [OF ok] obtain w1 where u: "userRows args synapse ups user w1 = Ok s' w'"
    by blast
  from userRows_Ok [OF u] obtain pw em ln co where
    rows: "snd s' = Users (masUser user (fst (makeUuid (userCreatedAt user) w1))) # pw @ em @ ln @ co"
    and kinds: "list_all is_UserPasswords pw" "list_all is_UserEmails em"
      "list_all is_UpstreamOauthLinks ln" "deactivated user = 1 \<longrightarrow> co = []"
    and em: "map (\<lambda>e. (email e, em_created_at e, confirmed_at e)) (emails_of em)
        = map (\<lambda>t. (toLowerCase (address t), added_at t,
                     if truthy_int (validated_at t) then validated_at t else None))
            (filter (\<lambda>t. medium t = ''email'')
               (filter (\<lambda>t. tp_user_id t = name user) (user_threepids synapse)))"
    and ln: "map (\<lambda>l. (ln_upstream_oauth_provider_id l, subject l, ln_created_at l)) (links_of ln)
        = concat (map (\<lambda>e. case ups (auth_provider e) of
                              None \<Rightarrow> []
                            | Some p \<Rightarrow> [(upstream_oauth_provider_id p, external_id e,
                                          userCreatedAt user)])
                   (filter (\<lambda>e. ei_user_id e = name user) (user_external_ids synapse)))"
    by blast
  from kinds d have co: "co = []" by simp
  from makeUuid_seed [of "userCreatedAt user" w1] obtain r where
    r: "fst (makeUuid (userCreatedAt user) w1) = Uuid_toCanonical (Ulid_generate (creation_ts user * 1000) r)"
    by (auto simp: userCreatedAt_def)
  have u1: "users_of (snd s')
      = [masUser user (Uuid_toCanonical (Ulid_generate (creation_ts user * 1000) r))]"
    using rows co r passwords_only [OF kinds(1)] emails_only [OF kinds(2)] links_only [OF kinds(3)]
    by simp
  have u2: "map locked_at (users_of (snd s')) = [Some (creation_ts user * 1000)]"
    using u1 d by (simp add: masUser_def userCreatedAt_def)
  have e: "emails_of (snd s') = emails_of em"
    using rows co passwords_only [OF kinds(1)] links_only [OF kinds(3)] by simp
  have l: "links_of (snd s') = links_of ln"
    using rows co passwords_only [OF kinds(1)] emails_only [OF kinds(2)] by simp
  have c: "list_all (\<lambda>r. \<not> is_compat r) (snd s')"
    using rows co passwords_only [OF kinds(1)] emails_only [OF kinds(2)] links_only [OF kinds(3)]
    by simp
  have u1': "\<exists>r. users_of (snd s')
      = [masUser user (Uuid_toCanonical (Ulid_generate (creation_ts user * 1000) r))]"
    using u1 by blast
  have ln': "map (\<lambda>l. (ln_upstream_oauth_provider_id l, subject l, ln_created_at l)) (links_of ln)
        = concat (map (\<lambda>e. case ups (auth_provider e) of
                              None \<Rightarrow> []
                            | Some p \<Rightarrow> [(upstream_oauth_provider_id p, external_id e,
                                          creation_ts user * 1000)])
                   (filter (\<lambda>e. ei_user_id e = name user) (user_external_ids synapse)))"
    using ln by (simp add: userCreatedAt_def cong: option.case_cong)
  from u1' u2 e l c em ln' show ?thesis
    by simp
qed


lemmas run_defs = migrate_def userStep_def migrateUser_def deriveRows_def guestCheck_def userRows_def
  password_def threePidStep_def externalIdStep_def externalIdTry_def accessTokenStep_def
  disposition_def commitUser_def execution_def knex_insert_def knex_transaction_def trx_commit_def
  trx_rollback_def fatal_def summary_def say_def warn_def issue_def makeUuid_def existingMasUsers_def
  synapseSelect_def accessTokenBody_def
  userCreatedAt_def tokenCreatedAt_def Let_def string_of_nat.simps

lemmas example_defs = empty_world_def alice_def alice_email_def alice_phone_def alice_token_def
  alice_link_def example_provider_def example_synapse_def real_run_def dry_run_def guest_user_def
  guest_synapse_def migrated_world_def email_rejecting_world_def carol_def carol_synapse_def
  example_providers_def


text \<open>
  C7. A source user with the guest flag set leaves the target store as it was (its rows
  and its open transaction). Outside a dry run the process ends at the guest check with
  status 1; in a dry run the count of fatals goes up. A run whose users include a guest
  never ends normally.
\<close>

theorem C7_guest:
  assumes "is_guest user = 1"
  shows "mas_rows (world_of (migrateUser args synapse ups user w)) = mas_rows w
    \<and> mas_trx (world_of (migrateUser args synapse ups user w)) = mas_trx w
    \<and> (\<not> dryRun args \<longrightarrow> (\<exists>w'. migrateUser args synapse ups user w = Exited 1 w'))
    \<and> (dryRun args \<longrightarrow> fatals w < fatals (world_of (migrateUser args synapse ups user w)))
    \<and> (user \<in> set (users synapse) \<and> appservice_id user = None \<longrightarrow>
         \<not> is_Ok (migrate args sqlite3 synapse w0))"
proof (cases "dryRun args")
  case True
  have "mas_rows (world_of (migrateUser args synapse ups user w)) = mas_rows w"
    by (rule stable_migrateUser_dry [OF stable_rows True]) simp
  moreover have "mas_trx (world_of (migrateUser args synapse ups user w)) = mas_trx w"
    by (rule stable_migrateUser_dry [OF stable_trx True]) simp
  moreover have "fatals w < fatals (world_of (migrateUser args synapse ups user w))"
    using assms True by (rule guest_dry_fatals)
  ultimately show ?thesis
    using True guest_run [OF _ _ assms] by blast
next
  case False
  from guest_real [OF assms False] obtain w' where
    "migrateUser args synapse ups user w = Exited 1 w'" "mas_rows w' = mas_rows w"
    "mas_trx w' = mas_trx w" by blast
  then show ?thesis
    using False guest_run [OF _ _ assms] by auto
qed

theorem C7_guest_witness:
  "is_guest guest_user = 1
   \<and> mas_rows (world_of (migrateUser real_run guest_synapse Map.empty guest_user empty_world))
       = mas_rows empty_world
   \<and> \<not> dryRun real_run
   \<and> (\<exists>w'. migrateUser real_run guest_synapse Map.empty guest_user empty_world = Exited 1 w')
   \<and> dryRun dry_run
   \<and> fatals empty_world
       < fatals (world_of (migrateUser dry_run guest_synapse Map.empty guest_user empty_world))
   \<and> guest_user \<in> set (users guest_synapse) \<and> appservice_id guest_user = None
   \<and> \<not> is_Ok (migrate real_run True guest_synapse empty_world)"
proof -
  have h: "is_guest guest_user = 1"
    by (simp add: guest_user_def)
  show ?thesis
    using h C7_guest [OF h, of real_run guest_synapse Map.empty empty_world True empty_world]
      C7_guest [OF h, of dry_run guest_synapse Map.empty empty_world True empty_world]
    by (simp add: real_run_def dry_run_def guest_synapse_def guest_user_def)
qed

section \<open>Deactivated users and the units of timestamps\<close>

lemma deriveRows_store:
  "mas_rows (world_of (deriveRows args synapse ups user w)) = mas_rows w"
  "mas_rejects (world_of (deriveRows args synapse ups user w)) = mas_rejects w"
  by (rule stable_deriveRows [where I = "\<lambda>w'. mas_rows w' = mas_rows w"]
           stable_deriveRows [where I = "\<lambda>w'. mas_rejects w' = mas_rejects w"];
      simp add: stable_def)+

lemma migrateUser_commits:
  assumes ok: "deriveRows args synapse ups user w = Ok s' w'"
    and real: "\<not> dryRun args" and none: "fst s' = 0"
    and acc: "\<forall>rows r. \<not> mas_rejects w rows r"
  shows "\<exists>w''. migrateUser args synapse ups user w = Ok () w'' \<and> mas_rows w'' = mas_rows w @ snd s'"
proof -
  from deriveRows_store [of args synapse ups user w] ok
  have w': "mas_rows w' = mas_rows w" "mas_rejects w' = mas_rejects w" by simp_all
  with acc have "\<forall>rows r. \<not> mas_rejects w' rows r" by simp
  from commitUser_accepted [OF this, of user "snd s'"] w' ok real none show ?thesis
    by (simp add: migrateUser_def disposition_def)
qed

text \<open>
  C6. For a deactivated source user whose rows are derived, the one user row has
  \<open>locked_at\<close> equal to the creation time (the creation timestamp times 1000), the
  e-mail rows are those of the user's e-mail three-pids and the link rows those of the
  user's external ids with a known provider, as for any other user, and no compat
  session, compat access token or compat refresh token row is derived. In a real run
  without warnings on a store that accepts the rows, exactly these rows are added to
  the target store.
\<close>

theorem C6_deactivated:
  assumes "deactivated user = 1" and "deriveRows args synapse ups user w = Ok s' w'"
  shows "(\<exists>r. users_of (snd s')
            = [masUser user (Uuid_toCanonical (Ulid_generate (creation_ts user * 1000) r))])
    \<and> map locked_at (users_of (snd s')) = [Some (creation_ts user * 1000)]
    \<and> map (\<lambda>e. (email e, em_created_at e, confirmed_at e)) (emails_of (snd s'))
        = map (\<lambda>t. (toLowerCase (address t), added_at t,
                     if truthy_int (validated_at t) then validated_at t else None))
            (filter (\<lambda>t. medium t = ''email'')
               (filter (\<lambda>t. tp_user_id t = name user) (user_threepids synapse)))
    \<and> map (\<lambda>l. (ln_upstream_oauth_provider_id l, subject l, ln_created_at l)) (links_of (snd s'))
        = concat (map (\<lambda>e. case ups (auth_provider e) of
                              None \<Rightarrow> []
                            | Some p \<Rightarrow> [(upstream_oauth_provider_id p, external_id e,
                                          creation_ts user * 1000)])
                   (filter (\<lambda>e. ei_user_id e = name user) (user_external_ids synapse)))
    \<and> list_all (\<lambda>r. \<not> is_compat r) (snd s')
    \<and> (\<not> dryRun args \<and> fst s' = 0 \<and> (\<forall>rows r. \<not> mas_rejects w rows r) \<longrightarrow>
         (\<exists>w''. migrateUser args synapse ups user w = Ok () w''
            \<and> mas_rows w'' = mas_rows w @ snd s'))"
  using deactivated_rows [OF assms] migrateUser_commits [OF assms(2)] by blast

theorem C6_deactivated_witness:
  "deactivated carol = 1
   \<and> (\<exists>s' w'. deriveRows real_run carol_synapse example_providers carol empty_world = Ok s' w'
        \<and> map locked_at (users_of (snd s')) = [Some 1600000000000]
        \<and> map (\<lambda>e. (email e, em_created_at e, confirmed_at e)) (emails_of (snd s'))
            = [(''carol@example.org'', 1600000005000, None)]
        \<and> map (\<lambda>l. (ln_upstream_oauth_provider_id l, subject l, ln_created_at l)) (links_of (snd s'))
            = [(''018BCFE5-6800-0000-0000-000000003039'', ''carol-sub'', 1600000000000)]
        \<and> list_all (\<lambda>r. \<not> is_compat r) (snd s')
        \<and> \<not> dryRun real_run \<and> fst s' = 0 \<and> (\<forall>rows r. \<not> mas_rejects empty_world rows r)
        \<and> (\<exists>w''. migrateUser real_run carol_synapse example_providers carol empty_world = Ok () w''
              \<and> mas_rows w'' = mas_rows empty_world @ snd s'))"
proof -
  have d: "deactivated carol = 1" by (simp add: carol_def)
  obtain s' w' where ok: "deriveRows real_run carol_synapse example_providers carol empty_world = Ok s' w'"
    and n: "fst s' = 0"
    by (simp add: run_defs example_defs case_prod_unfold)
  have acc: "\<forall>rows r. \<not> mas_rejects empty_world rows r" by (simp add: empty_world_def)
  have real: "\<not> dryRun real_run" by (simp add: real_run_def)
  from C6_deactivated [OF d ok] n acc real
  have "map locked_at (users_of (snd s')) = [Some 1600000000000]
        \<and> map (\<lambda>e. (email e, em_created_at e, confirmed_at e)) (emails_of (snd s'))
            = [(''carol@example.org'', 1600000005000, None)]
        \<and> map (\<lambda>l. (ln_upstream_oauth_provider_id l, subject l, ln_created_at l)) (links_of (snd s'))
            = [(''018BCFE5-6800-0000-0000-000000003039'', ''carol-sub'', 1600000000000)]
        \<and> list_all (\<lambda>r. \<not> is_compat r) (snd s')
        \<and> (\<exists>w''. migrateUser real_run carol_synapse example_providers carol empty_world = Ok () w''
              \<and> mas_rows w'' = mas_rows empty_world @ snd s')"
    by (simp add: carol_def carol_synapse_def example_providers_def example_provider_def
          toLowerCase_def lower_char_def upper_letters_def lower_letters_def truthy_int_def)
  with d ok n acc real show ?thesis
    by - (rule conjI, assumption, rule exI [of _ s'], rule exI [of _ w'], simp)
qed







section \<open>How a step can end\<close>




lemma fatal_rejects: "synapse_rejects (world_of (fatal args m w)) = synapse_rejects w"
  by (simp add: fatal_def Let_def foldl_say_other)













lemma insert_warnings: "warnings (world_of (knex_insert h r w)) = warnings w"
  by (simp add: knex_insert_def split: handle.splits option.splits)













section \<open>The check of the target user table\<close>































section \<open>Warnings and their replay\<close>








section \<open>The transaction around the insertions of one user\<close>

text \<open>
  C1. The specification asks that the insertions of a user happen inside one transaction,
  so that nothing of the user remains in the target store when one of them fails. In
  the code every insertion goes through the root object \<^verbatim>\<open>mas\<close> and not through the
  transaction \<^verbatim>\<open>tx\<close>, so the transaction that is rolled back is empty. For the user of
  the example in a store that refuses her e-mail row, the run throws, the transaction is
  closed, and her user row (with her password row) is in the target store.
\<close>

theorem C1_rows_survive_failed_insertion:
  "(case migrateUser real_run example_synapse Map.empty alice email_rejecting_world of
      Thrown e w' \<Rightarrow>
        e = ConstraintViolation \<and> mas_trx w' = None
        \<and> map username (users_of (mas_rows w')) = [''alice'']
        \<and> length (mas_rows w') = 2
    | _ \<Rightarrow> False)"
  by (simp add: run_defs example_defs users_of_def masUser_def localpart_def substring_def)


section \<open>The two encodings of an identifier\<close>

lemma digits_be_length [simp]: "length (digits_be b n x) = n"
  by (induction n arbitrary: x) simp_all

lemma digits_be_lt: "0 < b \<Longrightarrow> d \<in> set (digits_be b n x) \<Longrightarrow> d < b"
  by (induction n arbitrary: x) auto

lemma value_be_snoc: "value_be b (ds @ [d]) = value_be b ds * b + d"
  by (simp add: value_be_def)

lemma value_be_digits: "value_be b (digits_be b n x) = x mod b ^ n"
proof (induction n arbitrary: x)
  case 0
  show ?case by (simp add: value_be_def)
next
  case (Suc n)
  have "x mod (b * b ^ n) = b * (x div b mod b ^ n) + x mod b"
    by (rule mod_mult2_eq)
  with Suc show ?case
    by (simp add: value_be_snoc mult.commute)
qed

lemma digits_be_Suc_front: "digits_be b (Suc n) x = (x div b ^ n mod b) # digits_be b n x"
proof (induction n arbitrary: x)
  case 0
  show ?case by simp
next
  case (Suc n)
  have "digits_be b (Suc (Suc n)) x = digits_be b (Suc n) (x div b) @ [x mod b]"
    by simp
  also have "\<dots> = ((x div b) div b ^ n mod b) # digits_be b n (x div b) @ [x mod b]"
    by (simp only: Suc.IH append_Cons)
  also have "(x div b) div b ^ n = x div b ^ Suc n"
    by (simp add: div_mult2_eq)
  finally show ?case by simp
qed

lemma index_of_nth: "distinct xs \<Longrightarrow> i < length xs \<Longrightarrow> index_of (xs ! i) xs = Some i"
proof (induction xs arbitrary: i)
  case Nil
  then show ?case by simp
next
  case (Cons y ys)
  show ?case
  proof (cases i)
    case 0
    then show ?thesis by simp
  next
    case (Suc j)
    with Cons.prems have "ys ! j \<in> set ys" "y \<notin> set ys" "j < length ys" "distinct ys" by auto
    with Cons.IH [of j] Suc show ?thesis by auto
  qed
qed

lemma decode_encode:
  assumes "distinct alphabet" and "x < length alphabet ^ n" and "alphabet \<noteq> []"
  shows "decode_with alphabet (encode_with alphabet n x) = x"
proof -
  have pos: "0 < length alphabet"
    using assms(3) by simp
  have "map (\<lambda>d. digit_of alphabet (alphabet ! d)) (digits_be (length alphabet) n x)
      = digits_be (length alphabet) n x"
  proof (rule map_idI)
    fix d assume "d \<in> set (digits_be (length alphabet) n x)"
    then have "d < length alphabet" using pos by (rule digits_be_lt [rotated])
    then show "digit_of alphabet (alphabet ! d) = d"
      by (simp add: digit_of_def index_of_nth [OF assms(1)])
  qed
  then have "map (digit_of alphabet) (map (\<lambda>d. alphabet ! d) (digits_be (length alphabet) n x))
      = digits_be (length alphabet) n x"
    by (simp add: comp_def)
  then show ?thesis
    using assms(2) by (simp add: decode_with_def encode_with_def value_be_digits)
qed

lemma encode_chars:
  assumes "alphabet \<noteq> []" and "c \<in> set (encode_with alphabet n x)"
  shows "c \<in> set alphabet"
proof -
  from assms(2) obtain d where "d \<in> set (digits_be (length alphabet) n x)" "c = alphabet ! d"
    by (auto simp: encode_with_def)
  moreover have "0 < length alphabet" using assms(1) by simp
  ultimately show ?thesis
    using digits_be_lt [of "length alphabet" d n x] by simp
qed

lemma encode_length [simp]: "length (encode_with alphabet n x) = n"
  by (simp add: encode_with_def)



lemma hex_facts:
  "distinct hex_alphabet" "length hex_alphabet = 16" "hex_alphabet \<noteq> []"
  by (simp_all add: hex_alphabet_def)

lemma crockford_facts:
  "distinct crockford_alphabet" "length crockford_alphabet = 32" "crockford_alphabet \<noteq> []"
  by (simp_all add: crockford_alphabet_def)

lemma hex_ground:
  "list_all (\<lambda>c. upper_char c = c \<and> c \<noteq> CHR ''-'') hex_alphabet"
  by (simp add: hex_alphabet_def upper_char_def lower_letters_def)

lemma upper_hex: "c \<in> set hex_alphabet \<Longrightarrow> upper_char c = c \<and> c \<noteq> CHR ''-''"
  using hex_ground unfolding list_all_iff by blast


lemma take_drop_join: "take n (drop k h) @ drop (k + n) h = drop k h"
  by (metis append_take_drop_id drop_drop add.commute)

lemma raw_props:
  "length (Uuid_toRaw x) = 32"
  "c \<in> set (Uuid_toRaw x) \<Longrightarrow> c \<in> set hex_alphabet"
  by (simp_all add: Uuid_toRaw_def encode_chars [OF hex_facts(3)])

lemma raw_upper: "map upper_char (Uuid_toRaw x) = Uuid_toRaw x"
  by (rule map_idI) (simp add: raw_props upper_hex)

lemma raw_decode:
  assumes "x < 2 ^ 128"
  shows "Uuid_fromRawTrusted (Uuid_toRaw x) = x"
proof -
  have "x < length hex_alphabet ^ 32"
    using assms by (simp add: hex_facts)
  then have "decode_with hex_alphabet (encode_with hex_alphabet 32 x) = x"
    by (rule decode_encode [OF hex_facts(1) _ hex_facts(3)])
  then show ?thesis
    using raw_upper [of x] by (simp add: Uuid_fromRawTrusted_def Uuid_toRaw_def)
qed

lemma raw_is_hex: "list_all is_hex (Uuid_toRaw x)"
  by (simp add: list_all_iff is_hex_def raw_props upper_hex)

lemma raw_is_hex_part:
  "list_all is_hex (take n (Uuid_toRaw x))" "list_all is_hex (drop n (Uuid_toRaw x))"
  "list_all is_hex (take n (drop k (Uuid_toRaw x)))"
  using raw_is_hex [of x]
  by (auto simp: list_all_iff dest: in_set_takeD in_set_dropD)

lemma raw_no_dash:
  "filter (\<lambda>c. c \<noteq> CHR ''-'') (take n (Uuid_toRaw x)) = take n (Uuid_toRaw x)"
  "filter (\<lambda>c. c \<noteq> CHR ''-'') (drop n (Uuid_toRaw x)) = drop n (Uuid_toRaw x)"
  "filter (\<lambda>c. c \<noteq> CHR ''-'') (take n (drop k (Uuid_toRaw x))) = take n (drop k (Uuid_toRaw x))"
  by (rule filter_True; blast dest: in_set_takeD in_set_dropD raw_props(2) upper_hex)+

lemma canonical_length: "length (Uuid_toCanonical x) = 36"
  by (simp add: Uuid_toCanonical_def Let_def raw_props)

lemma canonical_undash:
  "filter (\<lambda>c. c \<noteq> CHR ''-'') (Uuid_toCanonical x) = Uuid_toRaw x"
proof -
  let ?h = "Uuid_toRaw x"
  have "filter (\<lambda>c. c \<noteq> CHR ''-'') (Uuid_toCanonical x)
      = take 8 ?h @ take 4 (drop 8 ?h) @ take 4 (drop 12 ?h) @ take 4 (drop 16 ?h) @ drop 20 ?h"
    by (simp add: Uuid_toCanonical_def Let_def raw_no_dash)
  also have "take 4 (drop 16 ?h) @ drop 20 ?h = drop 16 ?h"
    using take_drop_join [of 4 16 ?h] by simp
  also have "take 4 (drop 12 ?h) @ drop 16 ?h = drop 12 ?h"
    using take_drop_join [of 4 12 ?h] by simp
  also have "take 4 (drop 8 ?h) @ drop 12 ?h = drop 8 ?h"
    using take_drop_join [of 4 8 ?h] by simp
  also have "take 8 ?h @ drop 8 ?h = ?h"
    by simp
  finally show ?thesis .
qed

lemma canonical_is_canonical: "Uuid_isCanonical (Uuid_toCanonical x)"
proof -
  let ?h = "Uuid_toRaw x"
  have l: "length ?h = 32" by (rule raw_props)
  show ?thesis
    unfolding Uuid_isCanonical_def
    by (simp add: canonical_length)
       (simp add: Uuid_toCanonical_def Let_def l raw_is_hex_part)
qed

lemma canonical_decode: "x < 2 ^ 128 \<Longrightarrow> Uuid_fromCanonicalTrusted (Uuid_toCanonical x) = x"
  by (simp add: Uuid_fromCanonicalTrusted_def canonical_undash raw_decode)

lemma ulid_length: "length (Ulid_toCanonical x) = 26"
  by (simp add: Ulid_toCanonical_def)

lemma ulid_decode:
  assumes "x < 2 ^ 128"
  shows "Ulid_fromCanonicalTrusted (Ulid_toCanonical x) = x"
proof -
  have "(2::nat) ^ 128 \<le> 32 ^ 26" by simp
  with assms have "x < length crockford_alphabet ^ 26"
    by (simp add: crockford_facts)
  then show ?thesis
    unfolding Ulid_fromCanonicalTrusted_def Ulid_toCanonical_def
    by (rule decode_encode [OF crockford_facts(1) _ crockford_facts(3)])
qed

lemma ulid_is_canonical:
  assumes "x < 2 ^ 128"
  shows "Ulid_isCanonical (Ulid_toCanonical x)"
proof -
  let ?d = "x div 32 ^ 25 mod 32"
  have "x div 32 ^ 25 < 8"
    using assms by (simp add: less_mult_imp_div_less)
  then have d: "?d < 8" by simp
  have front: "Ulid_toCanonical x
      = crockford_alphabet ! ?d # map (\<lambda>d. crockford_alphabet ! d) (digits_be 32 25 x)"
    using digits_be_Suc_front [of 32 25 x]
    by (simp add: Ulid_toCanonical_def encode_with_def crockford_facts)
  have "take 8 crockford_alphabet = ''01234567''"
    by (simp add: crockford_alphabet_def)
  moreover have "crockford_alphabet ! ?d = take 8 crockford_alphabet ! ?d"
    using d by simp
  moreover have "take 8 crockford_alphabet ! ?d \<in> set (take 8 crockford_alphabet)"
    using d by (intro nth_mem) (simp add: crockford_facts)
  ultimately have first: "crockford_alphabet ! ?d \<in> set ''01234567''"
    by simp
  have all: "list_all (\<lambda>c. c \<in> set crockford_alphabet) (Ulid_toCanonical x)"
    by (simp add: list_all_iff Ulid_toCanonical_def encode_chars [OF crockford_facts(3)])
  show ?thesis
    unfolding Ulid_isCanonical_def
    using first all by (simp add: ulid_length) (simp add: front)
qed

lemma parse_canonical_uuid:
  assumes "x < 2 ^ 128"
  shows "parseUuidOrUlid (Uuid_toCanonical x) = Inr (Uuid_toCanonical x, Ulid_toCanonical x)"
proof -
  have "\<not> Ulid_isCanonical (Uuid_toCanonical x)"
    by (simp add: Ulid_isCanonical_def canonical_length)
  then show ?thesis
    using assms by (simp add: parseUuidOrUlid_def canonical_is_canonical canonical_decode)
qed

lemma parse_canonical_ulid:
  assumes "x < 2 ^ 128"
  shows "parseUuidOrUlid (Ulid_toCanonical x) = Inr (Uuid_toCanonical x, Ulid_toCanonical x)"
  using assms by (simp add: parseUuidOrUlid_def ulid_is_canonical ulid_decode)

lemma parse_raw_uuid:
  assumes "x < 2 ^ 128"
  shows "parseUuidOrUlid (Uuid_toRaw x) = Inr (Uuid_toCanonical x, Ulid_toCanonical x)"
proof -
  have "\<not> Ulid_isCanonical (Uuid_toRaw x)" "\<not> Uuid_isCanonical (Uuid_toRaw x)"
    by (simp_all add: Ulid_isCanonical_def Uuid_isCanonical_def raw_props)
  moreover have "Uuid_isRaw (Uuid_toRaw x)"
    by (simp add: Uuid_isRaw_def raw_props raw_is_hex)
  ultimately show ?thesis
    using assms by (simp add: parseUuidOrUlid_def Uuid_fromRaw_def raw_decode)
qed

lemma parse_unrecognised:
  assumes "\<not> Ulid_isCanonical s" and "\<not> Uuid_isCanonical s" and "\<not> Uuid_isRaw s"
  shows "parseUuidOrUlid s = Inl InvalidEncoding"
  using assms by (simp add: parseUuidOrUlid_def Uuid_fromRaw_def)

lemma generate_128: "Ulid_generate t r < 2 ^ 128"
proof -
  have "nat (t mod 2 ^ 48) < 2 ^ 48"
    by (simp add: nat_less_iff)
  then have "nat (t mod 2 ^ 48) + 1 \<le> 2 ^ 48" by simp
  then have "(nat (t mod 2 ^ 48) + 1) * 2 ^ 80 \<le> 2 ^ 48 * (2::nat) ^ 80"
    by (rule mult_le_mono1)
  moreover have "r mod 2 ^ 80 < (2::nat) ^ 80" by simp
  ultimately have "nat (t mod 2 ^ 48) * 2 ^ 80 + r mod 2 ^ 80 < 2 ^ 48 * (2::nat) ^ 80"
    by (simp add: add_mult_distrib)
  then show ?thesis
    by (simp add: Ulid_generate_def)
qed


subsection \<open>A worked example\<close>

lemma digits_be_numeral:
  "digits_be b (numeral k) x = digits_be b (pred_numeral k) (x div b) @ [x mod b]"
  by (simp add: numeral_eq_Suc)

lemma example_generate: "Ulid_generate 1700000000000 12345 = 2055173893344869597000499200000012345"
  by (simp add: Ulid_generate_def)

lemma example_uuid: "Uuid_toCanonical 2055173893344869597000499200000012345 = ''018BCFE5-6800-0000-0000-000000003039''"
  by (simp add: Uuid_toCanonical_def Uuid_toRaw_def encode_with_def hex_facts digits_be_numeral)
     (simp add: hex_alphabet_def)

lemma example_ulid: "Ulid_toCanonical 2055173893344869597000499200000012345 = ''01HF7YAT000000000000000C1S''"
  by (simp add: Ulid_toCanonical_def encode_with_def crockford_facts digits_be_numeral)
     (simp add: crockford_alphabet_def)

lemma example_raw: "Uuid_toRaw 2055173893344869597000499200000012345 = ''018BCFE5680000000000000000003039''"
  by (simp add: Uuid_toRaw_def encode_with_def hex_facts digits_be_numeral)
     (simp add: hex_alphabet_def)

text \<open>
  C5. The identifier generated for a time \<open>t\<close> (with random bits \<open>r\<close>) is a value below
  \<open>2 ^ 128\<close>; \<^verbatim>\<open>makeUuid\<close> returns its canonical UUID text. Its canonical UUID text and
  its canonical ULID text both decode to that value, and \<^verbatim>\<open>parseUuidOrUlid\<close> maps
  either text to the same pair of canonical UUID and canonical ULID texts. A string that
  is neither a canonical ULID, nor a canonical UUID, nor a raw UUID makes
  \<^verbatim>\<open>parseUuidOrUlid\<close> fail.
\<close>

theorem C5_identifier_duality:
  "Ulid_generate t r < 2 ^ 128
   \<and> fst (makeUuid t w) = Uuid_toCanonical (Ulid_generate t (random w (drawn w)))
   \<and> Uuid_fromCanonicalTrusted (Uuid_toCanonical (Ulid_generate t r)) = Ulid_generate t r
   \<and> Ulid_fromCanonicalTrusted (Ulid_toCanonical (Ulid_generate t r)) = Ulid_generate t r
   \<and> parseUuidOrUlid (Uuid_toCanonical (Ulid_generate t r))
       = Inr (Uuid_toCanonical (Ulid_generate t r), Ulid_toCanonical (Ulid_generate t r))
   \<and> parseUuidOrUlid (Ulid_toCanonical (Ulid_generate t r))
       = Inr (Uuid_toCanonical (Ulid_generate t r), Ulid_toCanonical (Ulid_generate t r))
   \<and> (\<not> Ulid_isCanonical s \<and> \<not> Uuid_isCanonical s \<and> \<not> Uuid_isRaw s \<longrightarrow>
        parseUuidOrUlid s = Inl InvalidEncoding)"
  using generate_128 [of t r] canonical_decode [of "Ulid_generate t r"]
    ulid_decode [of "Ulid_generate t r"] parse_canonical_uuid [of "Ulid_generate t r"]
    parse_canonical_ulid [of "Ulid_generate t r"] parse_unrecognised [of s]
  by (simp add: makeUuid_def)

theorem C5_identifier_duality_witness:
  "\<not> Ulid_isCanonical ''not-an-identifier'' \<and> \<not> Uuid_isCanonical ''not-an-identifier''
   \<and> \<not> Uuid_isRaw ''not-an-identifier''
   \<and> parseUuidOrUlid ''not-an-identifier'' = Inl InvalidEncoding
   \<and> parseUuidOrUlid ''018BCFE5-6800-0000-0000-000000003039''
       = Inr (''018BCFE5-6800-0000-0000-000000003039'', ''01HF7YAT000000000000000C1S'')
   \<and> parseUuidOrUlid ''01HF7YAT000000000000000C1S''
       = Inr (''018BCFE5-6800-0000-0000-000000003039'', ''01HF7YAT000000000000000C1S'')"
proof -
  have n: "\<not> Ulid_isCanonical ''not-an-identifier''" "\<not> Uuid_isCanonical ''not-an-identifier''"
    "\<not> Uuid_isRaw ''not-an-identifier''"
    by (simp_all add: Ulid_isCanonical_def Uuid_isCanonical_def Uuid_isRaw_def)
  from C5_identifier_duality [of 1700000000000 12345 empty_world "''not-an-identifier''"] n
  show ?thesis
    by (simp add: example_generate example_uuid example_ulid)
qed



section \<open>The provider mappings\<close>

lemma js_split_unfold:
  "js_split sep s = takeWhile (\<lambda>c. c \<noteq> sep) s
     # (if sep \<in> set s then js_split sep (drop 1 (dropWhile (\<lambda>c. c \<noteq> sep) s)) else [])"
proof (induction s)
  case Nil
  show ?case by simp
next
  case (Cons c cs)
  show ?case
  proof (cases "c = sep")
    case True
    then show ?thesis by simp
  next
    case False
    from Cons.IH False show ?thesis
      by (cases "js_split sep cs") auto
  qed
qed

lemma js_nth_split_0: "js_nth (js_split sep s) 0 = Some (takeWhile (\<lambda>c. c \<noteq> sep) s)"
  by (subst js_split_unfold) simp

lemma js_nth_split_1:
  "js_nth (js_split sep s) 1
     = (if sep \<in> set s
        then Some (takeWhile (\<lambda>c. c \<noteq> sep) (drop 1 (dropWhile (\<lambda>c. c \<noteq> sep) s)))
        else None)"
  by (subst js_split_unfold) (simp add: js_nth_split_0)

lemma raw_is_raw: "Uuid_isRaw (Uuid_toRaw x)"
  by (simp add: Uuid_isRaw_def raw_props raw_is_hex)

lemma recognised_parses:
  assumes "Uuid_isRaw s \<or> Uuid_isCanonical s \<or> Ulid_isCanonical s"
  shows "\<exists>uuid ulid. parseUuidOrUlid s = Inr (uuid, ulid)"
  using assms by (auto simp: parseUuidOrUlid_def Uuid_fromRaw_def)

lemma mapping_malformed:
  assumes "\<not> truthy_string (js_nth (js_split CHR '':'' mapping) 0)
           \<or> \<not> truthy_string (js_nth (js_split CHR '':'' mapping) 1)"
  shows "upstreamProviderMappingStep mapping ups w
    = Thrown (Error (''Upstream provider mapping is not in correct format. It should be <upstream_provider_id>:<mas_provider_id>: '' @ mapping)) w"
  using assms by (auto simp: upstreamProviderMappingStep_def)

lemma mapping_wellformed:
  assumes a: "js_nth (js_split CHR '':'' mapping) 0 = Some providerId" "providerId \<noteq> []"
    and b: "js_nth (js_split CHR '':'' mapping) 1 = Some masProviderId" "masProviderId \<noteq> []"
  shows "(\<not> Uuid_isRaw masProviderId \<and> \<not> Uuid_isCanonical masProviderId
          \<and> \<not> Ulid_isCanonical masProviderId \<longrightarrow>
          upstreamProviderMappingStep mapping ups w
            = Thrown (Error (''Upstream provider mapping is not in correct format. It should be a UUID or a ULID: '' @ masProviderId)) w)
    \<and> (Uuid_isRaw masProviderId \<or> Uuid_isCanonical masProviderId \<or> Ulid_isCanonical masProviderId \<longrightarrow>
         (\<exists>uuid ulid. parseUuidOrUlid masProviderId = Inr (uuid, ulid)
            \<and> (find (\<lambda>p. upstream_oauth_provider_id p = uuid) (upstream_oauth_providers w) = None \<longrightarrow>
                 (\<exists>w'. upstreamProviderMappingStep mapping ups w
                    = Thrown (Error (''Could not find upstream provider '' @ ulid @ '' in MAS database'')) w'))
            \<and> (\<forall>p. find (\<lambda>p. upstream_oauth_provider_id p = uuid) (upstream_oauth_providers w) = Some p \<longrightarrow>
                 (\<exists>w'. upstreamProviderMappingStep mapping ups w = Ok (ups(providerId \<mapsto> p)) w'))))"
proof (intro conjI impI)
  assume "\<not> Uuid_isRaw masProviderId \<and> \<not> Uuid_isCanonical masProviderId \<and> \<not> Ulid_isCanonical masProviderId"
  then show "upstreamProviderMappingStep mapping ups w
            = Thrown (Error (''Upstream provider mapping is not in correct format. It should be a UUID or a ULID: '' @ masProviderId)) w"
    using a b by (simp add: upstreamProviderMappingStep_def truthy_string_def)
next
  assume r: "Uuid_isRaw masProviderId \<or> Uuid_isCanonical masProviderId \<or> Ulid_isCanonical masProviderId"
  from recognised_parses [OF r] obtain uuid ulid where
    p: "parseUuidOrUlid masProviderId = Inr (uuid, ulid)" by blast
  have 1: "find (\<lambda>p. upstream_oauth_provider_id p = uuid) (upstream_oauth_providers w) = None \<longrightarrow>
                 (\<exists>w'. upstreamProviderMappingStep mapping ups w
                    = Thrown (Error (''Could not find upstream provider '' @ ulid @ '' in MAS database'')) w')"
    using a b r p by (auto simp: upstreamProviderMappingStep_def truthy_string_def)
  have 2: "\<forall>q. find (\<lambda>p. upstream_oauth_provider_id p = uuid) (upstream_oauth_providers w) = Some q \<longrightarrow>
                 (\<exists>w'. upstreamProviderMappingStep mapping ups w = Ok (ups(providerId \<mapsto> q)) w')"
    using a b r p by (auto simp: upstreamProviderMappingStep_def truthy_string_def)
  from p 1 2 show "\<exists>uuid ulid. parseUuidOrUlid masProviderId = Inr (uuid, ulid)
            \<and> (find (\<lambda>p. upstream_oauth_provider_id p = uuid) (upstream_oauth_providers w) = None \<longrightarrow>
                 (\<exists>w'. upstreamProviderMappingStep mapping ups w
                    = Thrown (Error (''Could not find upstream provider '' @ ulid @ '' in MAS database'')) w'))
            \<and> (\<forall>p. find (\<lambda>p. upstream_oauth_provider_id p = uuid) (upstream_oauth_providers w) = Some p \<longrightarrow>
                 (\<exists>w'. upstreamProviderMappingStep mapping ups w = Ok (ups(providerId \<mapsto> p)) w'))"
    by - (rule exI [of _ uuid], rule exI [of _ ulid], intro conjI, assumption+)
qed

lemma example_raw_recognised: "Uuid_isRaw ''018BCFE5680000000000000000003039''"
  using raw_is_raw [of 2055173893344869597000499200000012345] by (simp add: example_raw)

lemma example_raw_parses:
  "parseUuidOrUlid ''018BCFE5680000000000000000003039''
     = Inr (''018BCFE5-6800-0000-0000-000000003039'', ''01HF7YAT000000000000000C1S'')"
  using parse_raw_uuid [of 2055173893344869597000499200000012345]
  by (simp add: example_raw example_uuid example_ulid)

text \<open>
  C4, as the specification states it: the mapping is split at its first \<open>:\<close>, and a
  right side that is not an identifier is refused. The code splits at every \<open>:\<close> and
  reads the first two pieces only: for a mapping with a third piece, the text after the
  first \<open>:\<close> is no identifier, and the mapping is accepted all the same.
\<close>

theorem C4_third_piece_ignored:
  "drop 1 (dropWhile (\<lambda>c. c \<noteq> CHR '':'') ''oidc-main:018BCFE5680000000000000000003039:junk'')
     = ''018BCFE5680000000000000000003039:junk''
   \<and> \<not> Uuid_isRaw ''018BCFE5680000000000000000003039:junk''
   \<and> \<not> Uuid_isCanonical ''018BCFE5680000000000000000003039:junk''
   \<and> \<not> Ulid_isCanonical ''018BCFE5680000000000000000003039:junk''
   \<and> is_Ok (upstreamProviderMappingStep ''oidc-main:018BCFE5680000000000000000003039:junk''
              Map.empty provider_world)"
  by (simp add: Uuid_isRaw_def Uuid_isCanonical_def Ulid_isCanonical_def)
     (simp add: upstreamProviderMappingStep_def truthy_string_def provider_world_def
        example_provider_def example_raw_recognised example_raw_parses)

text \<open>
  C4, amended. The mapping is split at every \<open>:\<close>; the source provider name is the
  text before the first \<open>:\<close> and the target identifier the text between the first and
  the second \<open>:\<close> (or up to the end); later pieces are ignored. The step throws the
  format error when there is no \<open>:\<close> or one of the two pieces is empty, throws the
  second format error when the identifier is neither a raw UUID, a canonical UUID nor a
  canonical ULID, throws the unknown-provider error when no provider row has the
  identifier's canonical UUID, and otherwise records the provider row under the source
  provider name.
\<close>

theorem C4_provider_mapping:
  "js_nth (js_split CHR '':'' mapping) 0 = Some (takeWhile (\<lambda>c. c \<noteq> CHR '':'') mapping)
   \<and> js_nth (js_split CHR '':'' mapping) 1
       = (if CHR '':'' \<in> set mapping
          then Some (takeWhile (\<lambda>c. c \<noteq> CHR '':'')
                      (drop 1 (dropWhile (\<lambda>c. c \<noteq> CHR '':'') mapping)))
          else None)
   \<and> (\<not> truthy_string (js_nth (js_split CHR '':'' mapping) 0)
         \<or> \<not> truthy_string (js_nth (js_split CHR '':'' mapping) 1) \<longrightarrow>
        upstreamProviderMappingStep mapping ups w
          = Thrown (Error (''Upstream provider mapping is not in correct format. It should be <upstream_provider_id>:<mas_provider_id>: '' @ mapping)) w)
   \<and> (js_nth (js_split CHR '':'' mapping) 0 = Some providerId \<and> providerId \<noteq> []
        \<and> js_nth (js_split CHR '':'' mapping) 1 = Some masProviderId \<and> masProviderId \<noteq> [] \<longrightarrow>
        (\<not> Uuid_isRaw masProviderId \<and> \<not> Uuid_isCanonical masProviderId
          \<and> \<not> Ulid_isCanonical masProviderId \<longrightarrow>
          upstreamProviderMappingStep mapping ups w
            = Thrown (Error (''Upstream provider mapping is not in correct format. It should be a UUID or a ULID: '' @ masProviderId)) w)
        \<and> (Uuid_isRaw masProviderId \<or> Uuid_isCanonical masProviderId \<or> Ulid_isCanonical masProviderId \<longrightarrow>
             (\<exists>uuid ulid. parseUuidOrUlid masProviderId = Inr (uuid, ulid)
                \<and> (find (\<lambda>p. upstream_oauth_provider_id p = uuid) (upstream_oauth_providers w) = None \<longrightarrow>
                     (\<exists>w'. upstreamProviderMappingStep mapping ups w
                        = Thrown (Error (''Could not find upstream provider '' @ ulid @ '' in MAS database'')) w'))
                \<and> (\<forall>p. find (\<lambda>p. upstream_oauth_provider_id p = uuid) (upstream_oauth_providers w) = Some p \<longrightarrow>
                     (\<exists>w'. upstreamProviderMappingStep mapping ups w = Ok (ups(providerId \<mapsto> p)) w')))))"
  using js_nth_split_0 [of "CHR '':''" mapping] js_nth_split_1 [of "CHR '':''" mapping]
    mapping_malformed [of mapping ups w] mapping_wellformed [of mapping providerId masProviderId ups w]
  by blast

theorem C4_provider_mapping_witness:
  "\<not> truthy_string (js_nth (js_split CHR '':'' ''oidc-main'') 1)
   \<and> upstreamProviderMappingStep ''oidc-main'' Map.empty provider_world
       = Thrown (Error (''Upstream provider mapping is not in correct format. It should be <upstream_provider_id>:<mas_provider_id>: oidc-main'')) provider_world
   \<and> js_nth (js_split CHR '':'' ''oidc-main:018BCFE5680000000000000000003039'') 0 = Some ''oidc-main''
   \<and> js_nth (js_split CHR '':'' ''oidc-main:018BCFE5680000000000000000003039'') 1
       = Some ''018BCFE5680000000000000000003039''
   \<and> Uuid_isRaw ''018BCFE5680000000000000000003039''
   \<and> find (\<lambda>p. upstream_oauth_provider_id p = ''018BCFE5-6800-0000-0000-000000003039'')
        (upstream_oauth_providers provider_world) = Some example_provider
   \<and> (\<exists>w'. upstreamProviderMappingStep ''oidc-main:018BCFE5680000000000000000003039'' Map.empty
              provider_world
            = Ok (Map.empty(''oidc-main'' \<mapsto> example_provider)) w')
   \<and> find (\<lambda>p. upstream_oauth_provider_id p = ''018BCFE5-6800-0000-0000-000000003039'')
        (upstream_oauth_providers empty_world) = None
   \<and> (\<exists>w'. upstreamProviderMappingStep ''oidc-main:018BCFE5680000000000000000003039'' Map.empty
              empty_world
            = Thrown (Error ''Could not find upstream provider 01HF7YAT000000000000000C1S in MAS database'') w')"
proof -
  have a: "\<not> truthy_string (js_nth (js_split CHR '':'' ''oidc-main'') 1)"
    by (simp add: truthy_string_def)
  have b: "js_nth (js_split CHR '':'' ''oidc-main:018BCFE5680000000000000000003039'') 0 = Some ''oidc-main''"
    "js_nth (js_split CHR '':'' ''oidc-main:018BCFE5680000000000000000003039'') 1
       = Some ''018BCFE5680000000000000000003039''"
    by simp_all
  have c: "find (\<lambda>p. upstream_oauth_provider_id p = ''018BCFE5-6800-0000-0000-000000003039'')
        (upstream_oauth_providers provider_world) = Some example_provider"
    "find (\<lambda>p. upstream_oauth_provider_id p = ''018BCFE5-6800-0000-0000-000000003039'')
        (upstream_oauth_providers empty_world) = None"
    by (simp_all add: provider_world_def empty_world_def example_provider_def)
  from C4_provider_mapping [of "''oidc-main''" Map.empty provider_world] a
  have 1: "upstreamProviderMappingStep ''oidc-main'' Map.empty provider_world
       = Thrown (Error (''Upstream provider mapping is not in correct format. It should be <upstream_provider_id>:<mas_provider_id>: oidc-main'')) provider_world"
    by simp
  from C4_provider_mapping [of "''oidc-main:018BCFE5680000000000000000003039''" Map.empty
      provider_world "''oidc-main''" "''018BCFE5680000000000000000003039''"] b c
    example_raw_recognised example_raw_parses
  have 2: "\<exists>w'. upstreamProviderMappingStep ''oidc-main:018BCFE5680000000000000000003039'' Map.empty
              provider_world
            = Ok (Map.empty(''oidc-main'' \<mapsto> example_provider)) w'"
    by simp
  from C4_provider_mapping [of "''oidc-main:018BCFE5680000000000000000003039''" Map.empty
      empty_world "''oidc-main''" "''018BCFE5680000000000000000003039''"] b c
    example_raw_recognised example_raw_parses
  have 3: "\<exists>w'. upstreamProviderMappingStep ''oidc-main:018BCFE5680000000000000000003039'' Map.empty
              empty_world
            = Thrown (Error ''Could not find upstream provider 01HF7YAT000000000000000C1S in MAS database'') w'"
    by simp
  from a b c 1 2 3 example_raw_recognised show ?thesis
    by simp
qed

section \<open>Redaction of the rendered records\<close>

text \<open>
  The pattern is looked for behind each double quote of the text, from the left. Where it
  matches nowhere in a first part of the text, that part is kept and the replacement is
  made in the rest.
\<close>

lemma is_JString_iff: "is_JString v = (\<exists>sv. v = JString sv)"
  by (cases v) simp_all

lemma replace_first_skip: "clean A B \<Longrightarrow> replace_first (A @ B) = A @ replace_first B"
proof (induction A)
  case Nil
  show ?case by simp
next
  case (Cons c A)
  have rest: "clean A B"
    unfolding clean_def
  proof (intro allI impI)
    fix a1 a2 assume "A = a1 @ CHR 0x22 # a2"
    then have "c # A = (c # a1) @ CHR 0x22 # a2" by simp
    with Cons.prems show "match_names sensitive_names (a2 @ B) = None"
      unfolding clean_def by blast
  qed
  show ?case
  proof (cases "c = CHR 0x22")
    case True
    then have "c # A = [] @ CHR 0x22 # A" by simp
    with Cons.prems have "match_names sensitive_names (A @ B) = None"
      unfolding clean_def by blast
    with True Cons.IH [OF rest] show ?thesis by simp
  next
    case False
    with Cons.IH [OF rest] show ?thesis by simp
  qed
qed

lemma clean_append:
  assumes "clean A1 (A2 @ B)" and "clean A2 B"
  shows "clean (A1 @ A2) B"
  unfolding clean_def
proof (intro allI impI)
  fix a1 a2 assume eq: "A1 @ A2 = a1 @ CHR 0x22 # a2"
  then consider (left) u where "A1 = a1 @ CHR 0x22 # u" "a2 = u @ A2"
    | (right) u where "a1 = A1 @ u" "A2 = u @ CHR 0x22 # a2"
    by (auto simp: append_eq_append_conv2 append_eq_Cons_conv Cons_eq_append_conv)
  then show "match_names sensitive_names (a2 @ B) = None"
  proof cases
    case left
    with assms(1) show ?thesis unfolding clean_def by auto
  next
    case right
    with assms(2) show ?thesis unfolding clean_def by auto
  qed
qed

lemma clean_no_quote: "CHR 0x22 \<notin> set A \<Longrightarrow> clean A B"
  unfolding clean_def by auto

lemma clean_quote: "match_names sensitive_names B = None \<Longrightarrow> clean [CHR 0x22] B"
  unfolding clean_def by (auto simp: append_eq_Cons_conv Cons_eq_append_conv)

lemma hex_digit_no_quote: "k < 16 \<Longrightarrow> CHR 0x22 \<noteq> ''0123456789abcdef'' ! k"
proof -
  assume "k < 16"
  then have "''0123456789abcdef'' ! k \<in> set ''0123456789abcdef''"
    by (intro nth_mem) simp
  then show ?thesis by auto
qed

lemma esc_quote: "json_escape (CHR 0x22) = [CHR 0x5C, CHR 0x22]"
  by (simp add: json_escape_def)

lemma esc_cases:
  "(json_escape x = [x] \<and> x \<noteq> CHR 0x22 \<and> x \<noteq> CHR 0x5C) \<or> (\<exists>t. json_escape x = CHR 0x5C # t)"
  by (simp add: json_escape_def)

lemma esc_no_quote: "x \<noteq> CHR 0x22 \<Longrightarrow> CHR 0x22 \<notin> set (json_escape x)"
proof -
  assume x: "x \<noteq> CHR 0x22"
  have a: "CHR 0x22 \<noteq> ''0123456789abcdef'' ! (of_char x div 16)" if "(of_char x :: nat) < 32"
    using that by (intro hex_digit_no_quote) simp
  have b: "CHR 0x22 \<noteq> ''0123456789abcdef'' ! (of_char x mod 16)"
    by (intro hex_digit_no_quote) simp
  from x have x': "CHR 0x22 \<noteq> x" by blast
  show ?thesis
    using x x' a b by (simp add: json_escape_def)
qed

lemma escaped_no_quote:
  "CHR 0x22 \<notin> set s \<Longrightarrow> CHR 0x22 \<notin> set (concat (map json_escape s))"
proof (induction s)
  case Nil
  show ?case by simp
next
  case (Cons x xs)
  then have "x \<noteq> CHR 0x22" and "CHR 0x22 \<notin> set xs" by auto
  with Cons.IH esc_no_quote [of x] show ?case by simp
qed

lemma after_prefix_append: "after_prefix p (p @ s) = Some s"
  by (induction p) simp_all

lemma after_prefix_Some: "after_prefix p s = Some r \<Longrightarrow> s = p @ r"
  by (induction p s rule: after_prefix.induct) (auto split: if_splits)

lemma match_names_None:
  "(\<And>n. n \<in> set ns \<Longrightarrow> after_prefix (n @ [CHR 0x22, CHR '':'', CHR 0x22]) s = None)
   \<Longrightarrow> match_names ns s = None"
  by (induction ns) simp_all

lemma no_match_in_string:
  assumes "q = CHR 0x22" and "b = CHR 0x5C" and "q \<notin> set m" and "b \<notin> set m" and "c \<noteq> CHR '':''"
  shows "after_prefix (m @ [q, CHR '':'', q]) (concat (map json_escape v) @ q # c # B) = None"
  using assms(3,4)
proof (induction v arbitrary: m)
  case Nil
  show ?case
  proof (cases m)
    case Nil
    with assms(5) show ?thesis by simp
  next
    case (Cons a m')
    with Nil.prems show ?thesis by auto
  qed
next
  case (Cons x xs)
  from esc_cases [of x] show ?case
  proof
    assume "json_escape x = [x] \<and> x \<noteq> CHR 0x22 \<and> x \<noteq> CHR 0x5C"
    then have e: "json_escape x = [x]" "q \<noteq> x" using assms(1) by auto
    show ?thesis
    proof (cases m)
      case Nil
      with e show ?thesis by simp
    next
      case (Cons a m')
      with Cons.prems have "q \<notin> set m'" "b \<notin> set m'" by simp_all
      from Cons.IH [OF this] e Cons show ?thesis by simp
    qed
  next
    assume "\<exists>t. json_escape x = CHR 0x5C # t"
    then obtain t where t: "json_escape x = b # t" using assms(2) by blast
    have qb: "q \<noteq> b" using assms(1,2) by simp
    show ?thesis
    proof (cases m)
      case Nil
      with t qb show ?thesis by simp
    next
      case (Cons a m')
      with Cons.prems have "a \<noteq> b" by auto
      with t Cons show ?thesis by simp
    qed
  qed
qed

lemma key_match:
  assumes "q = CHR 0x22" and "b = CHR 0x5C" and "q \<notin> set m" and "b \<notin> set m"
    and "after_prefix (m @ [q, CHR '':'', q]) (concat (map json_escape k) @ q # CHR '':'' # X) = Some r"
  shows "k = m \<and> X = q # r"
  using assms(3,4,5)
proof (induction k arbitrary: m)
  case Nil
  show ?case
  proof (cases m)
    case Nil
    with Nil.prems(3) have "after_prefix [q] X = Some r" by simp
    from after_prefix_Some [OF this] Nil show ?thesis by simp
  next
    case (Cons a m')
    with Nil.prems have "a \<noteq> q" by auto
    with Nil.prems(3) Cons show ?thesis by simp
  qed
next
  case (Cons x xs)
  from esc_cases [of x] show ?case
  proof
    assume "json_escape x = [x] \<and> x \<noteq> CHR 0x22 \<and> x \<noteq> CHR 0x5C"
    then have e: "json_escape x = [x]" "q \<noteq> x" using assms(1) by auto
    show ?thesis
    proof (cases m)
      case Nil
      with e Cons.prems(3) show ?thesis by simp
    next
      case m: (Cons a m')
      with Cons.prems have m': "q \<notin> set m'" "b \<notin> set m'" by simp_all
      from Cons.prems(3) e m have ax: "a = x"
        and p: "after_prefix (m' @ [q, CHR '':'', q]) (concat (map json_escape xs) @ q # CHR '':'' # X) = Some r"
        by (simp_all split: if_splits)
      from Cons.IH [OF m' p] ax m show ?thesis by simp
    qed
  next
    assume "\<exists>t. json_escape x = CHR 0x5C # t"
    then obtain t where t: "json_escape x = b # t" using assms(2) by blast
    have qb: "q \<noteq> b" using assms(1,2) by simp
    show ?thesis
    proof (cases m)
      case Nil
      with t qb Cons.prems(3) show ?thesis by simp
    next
      case m: (Cons a m')
      with Cons.prems have "a \<noteq> b" by auto
      with t m Cons.prems(3) show ?thesis by simp
    qed
  qed
qed

lemma names_plain:
  "list_all (\<lambda>n. n \<noteq> [] \<and> CHR 0x22 \<notin> set n \<and> CHR 0x5C \<notin> set n
      \<and> hd n \<noteq> CHR '':'' \<and> hd n \<noteq> CHR '','' \<and> hd n \<noteq> CHR ''}''
      \<and> concat (map json_escape n) = n) sensitive_names"
  by (simp add: sensitive_names_def json_escape_def)

lemma name_plain:
  assumes "n \<in> set sensitive_names"
  shows "n \<noteq> []" "CHR 0x22 \<notin> set n" "CHR 0x5C \<notin> set n"
    "hd n \<noteq> CHR '':''" "hd n \<noteq> CHR '',''" "hd n \<noteq> CHR ''}''" "concat (map json_escape n) = n"
  using names_plain assms unfolding list_all_iff by blast+

lemma after_prefix_hd: "p \<noteq> [] \<Longrightarrow> hd p \<noteq> c \<Longrightarrow> after_prefix (p @ t) (c # s) = None"
  by (cases p) simp_all

lemma no_match_at: 
  assumes "c = CHR '':'' \<or> c = CHR '','' \<or> c = CHR ''}''"
  shows "match_names sensitive_names (c # s) = None"
proof (rule match_names_None)
  fix n assume "n \<in> set sensitive_names"
  from name_plain(1,4,5,6) [OF this] assms have "n \<noteq> []" "hd n \<noteq> c" by auto
  then show "after_prefix (n @ [CHR 0x22, CHR '':'', CHR 0x22]) (c # s) = None"
    by (rule after_prefix_hd)
qed

lemma string_of_nat_digits: "set (string_of_nat n) \<subseteq> set ''0123456789''"
proof (induction n rule: string_of_nat.induct)
  case (1 n)
  have d: "''0123456789'' ! k \<in> set ''0123456789''" if "k < 10" for k
    using that by (intro nth_mem) simp
  show ?case
  proof (cases "n < 10")
    case True
    with d [of n] show ?thesis by (subst string_of_nat.simps) simp
  next
    case False
    with 1 [OF False] d [of "n mod 10"] show ?thesis by (subst string_of_nat.simps) simp
  qed
qed

lemma string_of_int_no_quote: "CHR 0x22 \<notin> set (string_of_int i)"
  using string_of_nat_digits [of "nat i"] string_of_nat_digits [of "nat (- i)"]
  by (auto simp: string_of_int_def)

lemma string_of_nat_not_Nil: "string_of_nat n \<noteq> []"
  by (subst string_of_nat.simps) simp

lemma value_no_quote: "\<not> (\<exists>sv. v = JString sv) \<Longrightarrow> CHR 0x22 \<notin> set (json_value v)"
  by (cases v) (simp_all add: string_of_int_no_quote)

lemma value_not_Nil: "json_value v \<noteq> []"
  by (cases v) (simp_all add: json_quote_def string_of_int_def string_of_nat_not_Nil)

lemma value_starts_with_quote:
  assumes "json_value v @ rest = CHR 0x22 # r"
  shows "\<exists>sv. v = JString sv"
proof (rule ccontr)
  assume "\<not> (\<exists>sv. v = JString sv)"
  then have "CHR 0x22 \<notin> set (json_value v)" by (rule value_no_quote)
  moreover from assms value_not_Nil [of v] have "hd (json_value v) = CHR 0x22"
    by (cases "json_value v") simp_all
  ultimately show False using value_not_Nil [of v] by (cases "json_value v") simp_all
qed

lemma clean_escaped:
  assumes "c \<noteq> CHR '':''"
  shows "clean (concat (map json_escape sv)) (CHR 0x22 # c # B)"
proof (induction sv)
  case Nil
  show ?case by (simp add: clean_no_quote)
next
  case (Cons x xs)
  have "clean (json_escape x) (concat (map json_escape xs) @ CHR 0x22 # c # B)"
  proof (cases "x = CHR 0x22")
    case True
    have "clean [CHR 0x22] (concat (map json_escape xs) @ CHR 0x22 # c # B)"
    proof (rule clean_quote, rule match_names_None)
      fix n assume "n \<in> set sensitive_names"
      from name_plain(2,3) [OF this]
      show "after_prefix (n @ [CHR 0x22, CHR '':'', CHR 0x22])
              (concat (map json_escape xs) @ CHR 0x22 # c # B) = None"
        by (intro no_match_in_string [OF refl refl _ _ assms])
    qed
    moreover have "clean [CHR 0x5C] ([CHR 0x22] @ concat (map json_escape xs) @ CHR 0x22 # c # B)"
      by (rule clean_no_quote) simp
    ultimately have "clean ([CHR 0x5C] @ [CHR 0x22]) (concat (map json_escape xs) @ CHR 0x22 # c # B)"
      using clean_append [of "[CHR 0x5C]" "[CHR 0x22]"] by simp
    with True show ?thesis by (simp add: esc_quote)
  next
    case False
    then show ?thesis by (intro clean_no_quote esc_no_quote)
  qed
  with Cons.IH have "clean (json_escape x @ concat (map json_escape xs)) (CHR 0x22 # c # B)"
    using clean_append [of "json_escape x" "concat (map json_escape xs)" "CHR 0x22 # c # B"] by simp
  then show ?case by simp
qed

lemma clean_value:
  assumes "c = CHR '','' \<or> c = CHR ''}''"
  shows "clean (json_value v) (c # B)"
proof (cases "\<exists>sv. v = JString sv")
  case False
  then show ?thesis by (intro clean_no_quote value_no_quote)
next
  case True
  then obtain sv where v: "v = JString sv" by blast
  from assms have c: "c \<noteq> CHR '':''" by auto
  have 1: "clean [CHR 0x22] (concat (map json_escape sv) @ [CHR 0x22] @ c # B)"
  proof (rule clean_quote, rule match_names_None)
    fix n assume "n \<in> set sensitive_names"
    from name_plain(2,3) [OF this]
    show "after_prefix (n @ [CHR 0x22, CHR '':'', CHR 0x22])
            (concat (map json_escape sv) @ [CHR 0x22] @ c # B) = None"
      using no_match_in_string [OF refl refl _ _ c, of n sv B] by simp
  qed
  have 2: "clean (concat (map json_escape sv)) ([CHR 0x22] @ c # B)"
    using clean_escaped [OF c, of sv B] by simp
  have 3: "clean [CHR 0x22] (c # B)"
    using assms by (intro clean_quote no_match_at) auto
  from 2 3 have "clean (concat (map json_escape sv) @ [CHR 0x22]) (c # B)"
    using clean_append [of "concat (map json_escape sv)" "[CHR 0x22]" "c # B"] by simp
  with 1 have "clean ([CHR 0x22] @ concat (map json_escape sv) @ [CHR 0x22]) (c # B)"
    using clean_append [of "[CHR 0x22]" "concat (map json_escape sv) @ [CHR 0x22]" "c # B"] by simp
  with v show ?thesis by (simp add: json_quote_def)
qed

lemma clean_field:
  assumes key: "CHR 0x22 \<notin> set k"
    and ns: "\<not> (k \<in> set sensitive_names \<and> (\<exists>sv. v = JString sv))"
    and c: "c = CHR '','' \<or> c = CHR ''}''"
  shows "clean (json_field (k, v)) (c # B)"
proof -
  let ?V = "json_value v"
  let ?K = "concat (map json_escape k)"
  have 1: "clean [CHR 0x22] (?K @ [CHR 0x22] @ '':'' @ ?V @ c # B)"
  proof (rule clean_quote, rule match_names_None)
    fix n assume n: "n \<in> set sensitive_names"
    show "after_prefix (n @ [CHR 0x22, CHR '':'', CHR 0x22]) (?K @ [CHR 0x22] @ '':'' @ ?V @ c # B) = None"
    proof (rule ccontr)
      assume "after_prefix (n @ [CHR 0x22, CHR '':'', CHR 0x22]) (?K @ [CHR 0x22] @ '':'' @ ?V @ c # B) \<noteq> None"
      then obtain r where "after_prefix (n @ [CHR 0x22, CHR '':'', CHR 0x22])
          (?K @ CHR 0x22 # CHR '':'' # (?V @ c # B)) = Some r" by auto
      from key_match [OF refl refl name_plain(2,3) [OF n] this]
      have "k = n" "?V @ c # B = CHR 0x22 # r" by simp_all
      with value_starts_with_quote [of v "c # B" r] n ns show False by blast
    qed
  qed
  have 2: "clean ?K ([CHR 0x22] @ '':'' @ ?V @ c # B)"
    by (intro clean_no_quote escaped_no_quote key)
  have 3: "clean [CHR 0x22] ('':'' @ ?V @ c # B)"
    by (intro clean_quote) (simp add: no_match_at)
  have 4: "clean '':'' (?V @ c # B)"
    by (intro clean_no_quote) simp
  have 5: "clean ?V (c # B)"
    using c by (rule clean_value)
  from 4 5 have "clean ('':'' @ ?V) (c # B)"
    using clean_append [of "'':''" ?V "c # B"] by simp
  with 3 have "clean ([CHR 0x22] @ '':'' @ ?V) (c # B)"
    using clean_append [of "[CHR 0x22]" "'':'' @ ?V" "c # B"] by simp
  with 2 have "clean (?K @ [CHR 0x22] @ '':'' @ ?V) (c # B)"
    using clean_append [of ?K "[CHR 0x22] @ '':'' @ ?V" "c # B"] by simp
  with 1 have "clean ([CHR 0x22] @ ?K @ [CHR 0x22] @ '':'' @ ?V) (c # B)"
    using clean_append [of "[CHR 0x22]" "?K @ [CHR 0x22] @ '':'' @ ?V" "c # B"] by simp
  then show ?thesis
    by (simp add: json_field_def json_quote_def)
qed

lemma json_fields_Cons:
  "rest \<noteq> [] \<Longrightarrow> json_fields (f # rest) = json_field f @ '','' @ json_fields rest"
  by (cases rest) simp_all

lemma json_fields_prefix:
  "json_fields (pre @ f # post) = concat (map (\<lambda>g. json_field g @ '','') pre) @ json_fields (f # post)"
  by (induction pre) (simp_all add: json_fields_Cons)

lemma json_fields_last:
  "\<exists>c R. (c = CHR '','' \<or> c = CHR ''}'') \<and> json_fields (f # post) @ ''}'' = json_field f @ c # R
     \<and> (\<forall>g. json_fields (g # post) @ ''}'' = json_field g @ c # R)"
proof (cases post)
  case Nil
  then show ?thesis by simp
next
  case (Cons h t)
  then show ?thesis
    by (intro exI [of _ "CHR '',''"] exI [of _ "json_fields (h # t) @ ''}''"]) simp
qed

lemma clean_prefix:
  assumes "list_all plain_field pre"
  shows "clean (concat (map (\<lambda>g. json_field g @ '','') pre)) B"
  using assms
proof (induction pre)
  case Nil
  show ?case by (simp add: clean_no_quote)
next
  case (Cons g pre)
  then have g: "plain_field g" and rest: "clean (concat (map (\<lambda>g. json_field g @ '','') pre)) B"
    by simp_all
  let ?R = "concat (map (\<lambda>g. json_field g @ '','') pre)"
  from g have 1: "clean (json_field g) (CHR '','' # ?R @ B)"
    using clean_field [of "fst g" "snd g" "CHR '','' " "?R @ B"] by (simp add: plain_field_def is_JString_iff)
  have 2: "clean '','' (?R @ B)" by (rule clean_no_quote) simp
  from 1 2 have "clean (json_field g @ '','') (?R @ B)"
    using clean_append [of "json_field g" "'',''" "?R @ B"] by simp
  with rest have "clean ((json_field g @ '','') @ ?R) B"
    using clean_append [of "json_field g @ '',''" ?R B] by simp
  then show ?case by simp
qed

lemma dropWhile_to_quote: "q \<notin> set V \<Longrightarrow> dropWhile (\<lambda>c. c \<noteq> q) (V @ q # R) = q # R"
  by (induction V) auto

lemma match_sensitive:
  assumes "k \<in> set sensitive_names" and "CHR 0x22 \<notin> set V"
  shows "match_names sensitive_names (k @ [CHR 0x22, CHR '':'', CHR 0x22] @ V @ CHR 0x22 # R)
    = Some (CHR 0x22 # k @ [CHR 0x22, CHR '':'', CHR 0x22], R)"
proof -
  have d: "dropWhile (\<lambda>c. c \<noteq> CHR 0x22) (V @ CHR 0x22 # R) = CHR 0x22 # R"
    using assms(2) by (rule dropWhile_to_quote)
  from assms(1) consider "k = ''password_hash''" | "k = ''hashed_password''"
    | "k = ''access_token''" | "k = ''token''"
    by (auto simp: sensitive_names_def)
  then show ?thesis
    by cases (simp_all add: sensitive_names_def d)
qed

lemma redact_field:
  assumes "k \<in> set sensitive_names" and "CHR 0x22 \<notin> set v"
  shows "replace_first (json_field (k, JString v) @ c # R)
    = json_field (k, JString ''redacted'') @ c # R"
proof -
  have V: "CHR 0x22 \<notin> set (concat (map json_escape v))"
    using assms(2) by (rule escaped_no_quote)
  have k: "concat (map json_escape k) = k"
    using assms(1) by (rule name_plain)
  have r: "json_quote ''redacted'' = CHR 0x22 # ''redacted'' @ [CHR 0x22]"
    by (simp add: json_quote_def json_escape_def)
  have q: "json_quote k = CHR 0x22 # k @ [CHR 0x22]"
    by (simp add: json_quote_def k)
  have "json_field (k, JString v) @ c # R
      = CHR 0x22 # (k @ [CHR 0x22, CHR '':'', CHR 0x22] @ concat (map json_escape v) @ CHR 0x22 # c # R)"
    by (simp add: json_field_def json_quote_def k)
  then have "replace_first (json_field (k, JString v) @ c # R)
      = (CHR 0x22 # k @ [CHR 0x22, CHR '':'', CHR 0x22]) @ ''redacted'' @ [CHR 0x22] @ c # R"
    using match_sensitive [OF assms(1) V, of "c # R"] by simp
  also have "\<dots> = json_field (k, JString ''redacted'') @ c # R"
    by (simp add: json_field_def q r)
  finally show ?thesis .
qed

lemma redact_first_secret:
  assumes pre: "list_all plain_field pre"
    and k: "k \<in> set sensitive_names" and v: "CHR 0x22 \<notin> set v"
  shows "stringifyAndRedact (pre @ (k, JString v) # post)
    = JSON_stringify (pre @ (k, JString ''redacted'') # post)"
proof -
  let ?P = "concat (map (\<lambda>g. json_field g @ '','') pre)"
  from json_fields_last [of "(k, JString v)" post] obtain c R where
    c: "c = CHR '','' \<or> c = CHR ''}''"
    and 1: "json_fields ((k, JString v) # post) @ ''}'' = json_field (k, JString v) @ c # R"
    and 2: "json_fields ((k, JString ''redacted'') # post) @ ''}''
              = json_field (k, JString ''redacted'') @ c # R"
    by blast
  let ?F = "json_field (k, JString v) @ c # R"
  have "clean ''{'' (?P @ ?F)" by (rule clean_no_quote) simp
  moreover have "clean ?P ?F" using pre by (rule clean_prefix)
  ultimately have "clean (''{'' @ ?P) ?F"
    using clean_append [of "''{''" ?P ?F] by simp
  then have "replace_first ((''{'' @ ?P) @ ?F) = (''{'' @ ?P) @ replace_first ?F"
    by (rule replace_first_skip)
  moreover have "JSON_stringify (pre @ (k, JString v) # post) = (''{'' @ ?P) @ ?F"
    using 1 by (simp add: JSON_stringify_def json_fields_prefix)
  moreover have "JSON_stringify (pre @ (k, JString ''redacted'') # post)
      = (''{'' @ ?P) @ json_field (k, JString ''redacted'') @ c # R"
    using 2 by (simp add: JSON_stringify_def json_fields_prefix)
  ultimately show ?thesis
    using redact_field [OF k v, of c R] by (simp add: stringifyAndRedact_def)
qed

lemma nothing_to_redact:
  assumes "list_all plain_field r"
  shows "stringifyAndRedact r = JSON_stringify r"
proof (cases r rule: rev_cases)
  case Nil
  then show ?thesis by (simp add: stringifyAndRedact_def JSON_stringify_def)
next
  case (snoc pre f)
  with assms have pre: "list_all plain_field pre" and f: "plain_field f" by simp_all
  let ?P = "concat (map (\<lambda>g. json_field g @ '','') pre)"
  have t: "JSON_stringify r = (''{'' @ ?P @ json_field f @ ''}'') @ []"
    using snoc by (simp add: JSON_stringify_def json_fields_prefix)
  have "clean (json_field f) (CHR ''}'' # [])"
    using f clean_field [of "fst f" "snd f" "CHR ''}''" "[]"] by (simp add: plain_field_def is_JString_iff)
  moreover have "clean ''}'' []" by (rule clean_no_quote) simp
  ultimately have "clean (json_field f @ ''}'') []"
    using clean_append [of "json_field f" "''}''" "[]"] by simp
  moreover have "clean ?P ((json_field f @ ''}'') @ [])" using pre by (rule clean_prefix)
  ultimately have "clean (?P @ json_field f @ ''}'') []"
    using clean_append [of ?P "json_field f @ ''}''" "[]"] by simp
  moreover have "clean ''{'' ((?P @ json_field f @ ''}'') @ [])" by (rule clean_no_quote) simp
  ultimately have "clean (''{'' @ ?P @ json_field f @ ''}'') []"
    using clean_append [of "''{''" "?P @ json_field f @ ''}''" "[]"] by simp
  from replace_first_skip [OF this] t show ?thesis
    by (simp add: stringifyAndRedact_def)
qed

text \<open>
  The debug line of the password row (lines 230 to 234) begins with the last four
  characters of the source hash; a field without a string value is rendered as it is.
\<close>

lemma password_debug_line_example:
  "passwordDebugLine (the (password_hash alice)) alice_password_json
     = ''Password efgh => {'' @ json_fields
         [(''user_password_id'', JString ''018BCFE5-6800-0000-0000-000000000001''),
          (''user_id'', JString ''018BCFE5-6800-0000-0000-000000000000''),
          (''hashed_password'', JString ''redacted''),
          (''created_at'', JString ''2023-11-14T22:13:20.000Z''), (''version'', JNumber 1)] @ ''}''
   \<and> slice_last 4 (the (password_hash alice)) = ''efgh''
   \<and> stringifyAndRedact sso_user_json = JSON_stringify sso_user_json
   \<and> (''password_hash'', JNull) \<in> set sso_user_json"
  by (simp add: passwordDebugLine_def slice_last_def alice_def alice_password_json_def
      sso_user_json_def stringifyAndRedact_def JSON_stringify_def json_field_def json_quote_def
      json_escape_def sensitive_names_def string_of_int_def string_of_nat.simps)

lemma alice_row: "SUser_json alice = alice_json"
  by (simp add: SUser_json_def alice_json_def alice_def json_string_or_null_def)

text \<open>
  C2. Every field named \<^verbatim>\<open>password_hash\<close>, \<^verbatim>\<open>hashed_password\<close>,
  \<^verbatim>\<open>access_token\<close> or \<^verbatim>\<open>token\<close> is to have its value replaced by the marker in
  the rendered text. The pattern of \<^verbatim>\<open>stringifyAndRedact\<close> stops at the first double
  quote of the rendered value, which for a value that holds a double quote is the escaped
  one, and it has no \<^verbatim>\<open>g\<close> flag. For the source user whose password hash is
  \<^verbatim>\<open>$2b$12$ab"cdefgh\<close> the rendered text holds the end \<^verbatim>\<open>cdefgh\<close> of the hash
  behind the marker; for a record with the fields \<^verbatim>\<open>token\<close> and
  \<^verbatim>\<open>access_token\<close> the second value is rendered as it is.
\<close>

theorem C2_secret_left_in_clear:
  "stringifyAndRedact (SUser_json quoted_hash_user)
     = ''{'' @ json_field (''name'', JString ''@eve:example.org'') @ '',''
         @ json_quote ''password_hash'' @ '':'' @ json_quote ''redacted'' @ ''cdefgh'' @ [CHR 0x22]
         @ '','' @ json_fields [(''admin'', JNumber 0), (''is_guest'', JNumber 0),
               (''deactivated'', JNumber 0), (''creation_ts'', JNumber 1700000200),
               (''appservice_id'', JNull)] @ ''}''
   \<and> stringifyAndRedact two_secrets_json
     = ''{'' @ json_field (''token'', JString ''redacted'') @ '',''
         @ json_field (''access_token'', JString ''second'') @ ''}''"
  by (simp add: SUser_json_def quoted_hash_user_def two_secrets_json_def json_string_or_null_def
      stringifyAndRedact_def JSON_stringify_def json_field_def json_quote_def
      json_escape_def sensitive_names_def string_of_int_def string_of_nat.simps)

end
